theory Spec2Isabelle
  imports Main "HOL-Library.Word"
begin

unbundle bit_operations_syntax

section \<open>Bytes, buffers and the host\<close>

text \<open>
  Both tools work on \<open>std::vector<uint8_t>\<close> buffers. A buffer is a list of
  8-bit words. \<open>memcpy\<close> and \<open>memset\<close> into a buffer replace a range of it.
  Sizes (\<open>size_t\<close>) and the \<open>int\<close> offsets of the chunk loop are natural numbers:
  the directory limit stops the loop long before any of them could overflow.
\<close>

type_synonym byte = "8 word"

datatype error =
    UsageError
  | OutputExists
  | InputOpenFailed
  | BadFileName
  | OutOfDirectorySpace
  | OutOfRomSpace
  | OutputOpenFailed
  | OutputWriteFailed
  | NotARom
  | AssertionFailed
  | OutOfBounds

text \<open>
  The messages behind the constructors: \<open>usage()\<close> followed by \<open>exit(-1)\<close>;
  "Output file already exists."; "failed to open input file."; "Input files must be
  8.3"; "Out of directory space."; "Out of ROM space."; "Failed to open output file for
  writing." and "Could not open output file."; "Failed to write to ouput file."; "Not a
  valid rom file."; a failed \<open>assert\<close> (the documented build command keeps them); a
  read outside the buffer, which is undefined behaviour in the source.
\<close>

text \<open>
  What the tools see of the machine they run on: \<open>files\<close> gives the contents of the
  paths that exist and open for reading, \<open>creatable\<close> says whether opening a path for
  writing succeeds, \<open>write_good\<close> whether the stream is still good after the write.
\<close>

record host =
  files :: "string \<Rightarrow> byte list option"
  creatable :: "string \<Rightarrow> bool"
  write_good :: "string \<Rightarrow> bool"

definition memcpy_l :: "byte list \<Rightarrow> nat \<Rightarrow> byte list \<Rightarrow> byte list" where
  "memcpy_l dst off src = take off dst @ src @ drop (off + length src) dst"

definition memset_l :: "byte list \<Rightarrow> nat \<Rightarrow> byte \<Rightarrow> nat \<Rightarrow> byte list" where
  "memset_l dst off v n = take off dst @ replicate n v @ drop (off + n) dst"

definition byte_of_char :: "char \<Rightarrow> byte" where
  "byte_of_char c = of_nat (of_char c)"

definition char_of_byte :: "byte \<Rightarrow> char" where
  "char_of_byte b = char_of (unat b)"

definition c_bytes :: "string \<Rightarrow> byte list" where
  "c_bytes s = map byte_of_char s"

section \<open>Layout constants (both sources)\<close>

definition MAGIC :: byte where "MAGIC = 0xe5"

definition MAGIC_M :: byte where "MAGIC_M = 0x37"

definition CAPACITY_256kbit :: byte where "CAPACITY_256kbit = 0x20"

definition MAX_DIR_ENTRIES :: byte where "MAX_DIR_ENTRIES = 0x20"

definition DIR_ENTRY_INVALID :: byte where "DIR_ENTRY_INVALID = 0xe5"

definition DIR_ENTRY_VALID :: byte where "DIR_ENTRY_VALID = 0x00"

text \<open>\<open>sizeof(DirEntry) = sizeof(RomHeader) = 32\<close> (packed structs).\<close>

definition sizeof_DirEntry :: nat where "sizeof_DirEntry = 32"

text \<open>Field offsets inside the packed structs.\<close>

definition off_id0 :: nat where "off_id0 = 0"

definition off_id1 :: nat where "off_id1 = 1"

definition off_capacity :: nat where "off_capacity = 2"

definition off_checksum :: nat where "off_checksum = 3"

definition off_system_name :: nat where "off_system_name = 5"

definition off_rom_name :: nat where "off_rom_name = 8"

definition off_dir_entries :: nat where "off_dir_entries = 22"

definition off_v :: nat where "off_v = 23"

definition off_version :: nat where "off_version = 24"

definition off_month :: nat where "off_month = 26"

definition off_day :: nat where "off_day = 28"

definition off_year :: nat where "off_year = 30"

definition off_validity :: nat where "off_validity = 0"

definition off_file_name :: nat where "off_file_name = 1"

definition off_file_type :: nat where "off_file_type = 9"

definition off_logical_extent :: nat where "off_logical_extent = 12"

definition off_record_count :: nat where "off_record_count = 15"

definition off_allocation_map :: nat where "off_allocation_map = 16"

section \<open>The 16 KiB half swap (makerom.cpp 267-273, dumprom.cpp 216-222)\<close>

text \<open>
  \<open>temp = buf; memcpy(&buf[0], &temp[0x4000], 0x4000); memcpy(&buf[0x4000], &temp[0], 0x4000)\<close>
\<close>

definition swap_halves :: "byte list \<Rightarrow> byte list" where
  "swap_halves buf =
     (let temp = buf;
          buf1 = memcpy_l buf 0 (take 0x4000 (drop 0x4000 temp))
      in memcpy_l buf1 0x4000 (take 0x4000 (drop 0 temp)))"

section \<open>makerom\<close>

subsection \<open>split_file_name\<close>

text \<open>\<open>std::string::find_last_of(c)\<close>: the last position of \<open>c\<close>, or \<open>npos\<close>.\<close>

fun find_last_of :: "string \<Rightarrow> char \<Rightarrow> nat option" where
  "find_last_of [] c = None"
| "find_last_of (x # xs) c =
     (case find_last_of xs c of
        Some p \<Rightarrow> Some (Suc p)
      | None \<Rightarrow> (if x = c then Some 0 else None))"

definition split_file_name :: "string \<Rightarrow> error + (byte list \<times> byte list)" where
  "split_file_name full =
     (case find_last_of full (CHR ''.'') of
        None \<Rightarrow> Inl BadFileName
      | Some pos \<Rightarrow>
          (let sname = take pos full;
               sext = drop (pos + 1) full
           in if length sname < 1 \<or> length sname > 8 \<or> length sext < 1 \<or> length sext > 3
              then Inl BadFileName
              else Inr (memcpy_l (replicate 8 (byte_of_char (CHR '' ''))) 0 (c_bytes sname),
                        memcpy_l (replicate 3 (byte_of_char (CHR '' ''))) 0 (c_bytes sext))))"

subsection \<open>The directory buffer and the header in slot 0\<close>

definition invalidate_all :: "byte list \<Rightarrow> byte list" where
  "invalidate_all dir =
     fold (\<lambda>i d. d[i * sizeof_DirEntry + off_validity := DIR_ENTRY_INVALID])
          [1 ..< unat MAX_DIR_ENTRIES] dir"

definition init_directory :: "string \<Rightarrow> byte list" where
  "init_directory outName =
     (let d0 = replicate (sizeof_DirEntry * unat MAX_DIR_ENTRIES) DIR_ENTRY_INVALID;
          d1 = d0[off_id0 := MAGIC];
          d2 = d1[off_id1 := MAGIC_M];
          d3 = d2[off_capacity := CAPACITY_256kbit];
          d4 = memcpy_l d3 off_system_name (c_bytes ''H80'');
          d5 = memset_l d4 off_rom_name (byte_of_char (CHR '' '')) 14;
          d6 = memcpy_l d5 off_rom_name
                 (c_bytes (take (if length outName > 14 then 14 else length outName) outName));
          d7 = d6[off_dir_entries := 4];
          d8 = d7[off_v := byte_of_char (CHR ''V'')];
          d9 = d8[off_version := byte_of_char (CHR ''1'')];
          d10 = d9[off_version + 1 := byte_of_char (CHR ''0'')];
          d11 = memcpy_l d10 off_month (c_bytes ''11'');
          d12 = memcpy_l d11 off_day (c_bytes ''16'');
          d13 = memcpy_l d12 off_year (c_bytes ''20'')
      in invalidate_all d13)"

subsection \<open>Placing one file\<close>

record pack_state =
  directory :: "byte list"
  file_area :: "byte list"
  currentDirectory :: byte
  nextAllocation :: byte

text \<open>
  The locals of the loop body over one input file: \<open>allocationIndex\<close>,
  \<open>nextLogicalExtent\<close>, \<open>file_area_offset\<close> and \<open>buffer_offset\<close>.
\<close>

record chunk_state = pack_state +
  allocationIndex :: nat
  nextLogicalExtent :: nat
  file_area_offset :: nat
  buffer_offset :: nat

text \<open>
  Lines 217-220 and 233-237: clear the slot, copy name and type, store the extent number.
\<close>

definition reserve_entry :: "byte list \<Rightarrow> byte \<Rightarrow> byte list \<Rightarrow> byte list \<Rightarrow> nat \<Rightarrow> byte list" where
  "reserve_entry dir cd name type ext =
     (let base = unat cd * sizeof_DirEntry;
          d1 = memset_l dir base 0 sizeof_DirEntry;
          d2 = memcpy_l d1 (base + off_file_name) name;
          d3 = memcpy_l d2 (base + off_file_type) type
      in d3[base + off_logical_extent := of_nat ext])"

text \<open>Lines 199-207: the chunk count and the padding of the buffer.\<close>

definition chunks_of :: "byte list \<Rightarrow> nat" where
  "chunks_of buffer = (length buffer + 1023) div 1024"

text \<open>
  \<open>buffer.resize(n)\<close> appends value-initialised elements, that is \<open>0\<close>. The
  \<open>memset\<close> that follows has its value and count transposed: it writes \<open>0\<close> bytes
  of value \<open>(unsigned char) diff\<close>.
\<close>

definition pad_buffer :: "byte list \<Rightarrow> byte list" where
  "pad_buffer buffer =
     (let chunks = chunks_of buffer
      in if length buffer < chunks * 1024
         then (let diff = chunks * 1024 - length buffer;
                   resized = buffer @ replicate diff 0
               in memset_l resized (length resized - diff) (of_nat diff) 0)
         else buffer)"

text \<open>
  One iteration of the loop over the chunks (lines 225-245). The \<open>memcpy\<close> of line 243
  reads 1024 bytes of the buffer and writes 1024 bytes of the file area whatever their
  sizes: where either range leaves its vector the source has undefined behaviour, the model
  the error \<open>OutOfBounds\<close>. So the chunks can only be copied from a buffer that has been
  padded to whole chunks.
\<close>

definition chunk_step :: "byte list \<Rightarrow> byte list \<Rightarrow> byte list \<Rightarrow> chunk_state \<Rightarrow> error + chunk_state" where
  "chunk_step name type buffer s =
     (let r = (if allocationIndex s \<ge> 16
               then (let cd = currentDirectory s + 1
                     in if unat cd > unat MAX_DIR_ENTRIES - 1
                        then Inl OutOfDirectorySpace
                        else Inr (s\<lparr> currentDirectory := cd,
                                     directory := reserve_entry (directory s) cd name type
                                                    (nextLogicalExtent s),
                                     allocationIndex := 0,
                                     nextLogicalExtent := nextLogicalExtent s + 1 \<rparr>))
               else Inr s)
      in case r of
           Inl e \<Rightarrow> Inl e
         | Inr s1 \<Rightarrow>
             (let base = unat (currentDirectory s1) * sizeof_DirEntry;
                  d1 = (directory s1)[base + off_record_count :=
                          (directory s1) ! (base + off_record_count) + 8];
                  d2 = d1[base + off_allocation_map + allocationIndex s1 := nextAllocation s1];
                  fa = memcpy_l (file_area s1) (file_area_offset s1)
                         (take 1024 (drop (buffer_offset s1) buffer))
              in if buffer_offset s1 + 1024 > length buffer
                    \<or> file_area_offset s1 + 1024 > length (file_area s1)
                 then Inl OutOfBounds
                 else Inr (s1\<lparr> directory := d2,
                             file_area := fa,
                             allocationIndex := allocationIndex s1 + 1,
                             nextAllocation := nextAllocation s1 + 1,
                             buffer_offset := buffer_offset s1 + 1024,
                             file_area_offset := file_area_offset s1 + 1024 \<rparr>)))"

primrec chunk_loop :: "byte list \<Rightarrow> byte list \<Rightarrow> byte list \<Rightarrow> nat \<Rightarrow> chunk_state \<Rightarrow> error + chunk_state" where
  "chunk_loop name type buffer 0 s = Inr s"
| "chunk_loop name type buffer (Suc n) s =
     (case chunk_step name type buffer s of
        Inl e \<Rightarrow> Inl e
      | Inr s' \<Rightarrow> chunk_loop name type buffer n s')"

text \<open>
  Lines 210-220: the locals of the loop body, the space made in the file area
  (\<open>resize\<close> appends zero bytes) and the directory entry reserved for extent 0.
\<close>

definition chunk_init :: "pack_state \<Rightarrow> byte list \<Rightarrow> byte list \<Rightarrow> nat \<Rightarrow> chunk_state" where
  "chunk_init s name type chunks =
     \<lparr> directory = reserve_entry (directory s) (currentDirectory s + 1) name type 0,
       file_area = file_area s @ replicate (chunks * 1024) 0,
       currentDirectory = currentDirectory s + 1,
       nextAllocation = nextAllocation s,
       allocationIndex = 0,
       nextLogicalExtent = 1,
       file_area_offset = length (file_area s),
       buffer_offset = 0 \<rparr>"

text \<open>The body of the loop over \<open>argv[2..]\<close> (lines 179-246).\<close>

definition pack_file :: "host \<Rightarrow> string \<Rightarrow> pack_state \<Rightarrow> error + pack_state" where
  "pack_file h arg s =
     (if unat (currentDirectory s + 1) > unat MAX_DIR_ENTRIES - 1 then Inl OutOfDirectorySpace
      else case files h arg of
             None \<Rightarrow> Inl InputOpenFailed
           | Some contents \<Rightarrow>
               (case split_file_name arg of
                  Inl e \<Rightarrow> Inl e
                | Inr (name, type) \<Rightarrow>
                    (let chunks = chunks_of contents;
                         buffer = pad_buffer contents
                     in case chunk_loop name type buffer chunks (chunk_init s name type chunks) of
                          Inl e \<Rightarrow> Inl e
                        | Inr cs' \<Rightarrow>
                            Inr \<lparr> directory = directory cs',
                                  file_area = file_area cs',
                                  currentDirectory = currentDirectory cs',
                                  nextAllocation = nextAllocation cs' \<rparr>)))"

fun pack_files :: "host \<Rightarrow> string list \<Rightarrow> pack_state \<Rightarrow> error + pack_state" where
  "pack_files h [] s = Inr s"
| "pack_files h (arg # args) s =
     (case pack_file h arg s of
        Inl e \<Rightarrow> Inl e
      | Inr s' \<Rightarrow> pack_files h args s')"

subsection \<open>Finishing the header and serialising (lines 250-273)\<close>

text \<open>
  Line 251, \<open>((currentDirectory + 3) / 4) * 4\<close>: computed in \<open>int\<close>, stored in a
  \<open>uint8_t\<close>.
\<close>

definition dir_entries_for :: "byte \<Rightarrow> byte" where
  "dir_entries_for cd = of_nat (((unat cd + 3) div 4) * 4)"

definition finalise_header :: "pack_state \<Rightarrow> byte list" where
  "finalise_header s =
     (let d1 = (directory s)[off_dir_entries := dir_entries_for (currentDirectory s)];
          checksum = (of_nat (length (file_area s)) :: 16 word);
          d2 = d1[off_checksum := ucast (checksum AND 0xff)]
      in d2[off_checksum + 1 := ucast ((drop_bit 8 checksum) AND 0xff)])"

definition romSize :: nat where "romSize = 0x8000"

text \<open>Lines 263-265: the image before the address swap.\<close>

definition serialise_rom :: "byte list \<Rightarrow> byte list \<Rightarrow> byte list" where
  "serialise_rom dir fa =
     (let dir_bytes = unat (dir ! off_dir_entries) * sizeof_DirEntry;
          rom0 = replicate romSize 0xff;
          rom1 = memcpy_l rom0 0 (take dir_bytes dir)
      in memcpy_l rom1 dir_bytes fa)"

definition build_rom :: "pack_state \<Rightarrow> error + byte list" where
  "build_rom s =
     (let dir = finalise_header s;
          dir_bytes = unat (dir ! off_dir_entries) * sizeof_DirEntry
      in if dir_bytes + length (file_area s) > romSize then Inl OutOfRomSpace
         else (let rom = serialise_rom dir (file_area s)
               in Inr (if dir ! off_capacity = CAPACITY_256kbit then swap_halves rom else rom)))"

definition initial_state :: "string \<Rightarrow> pack_state" where
  "initial_state outName =
     \<lparr> directory = init_directory outName, file_area = [],
       currentDirectory = 0, nextAllocation = 1 \<rparr>"

text \<open>
  \<open>main\<close> of makerom: \<open>args\<close> is \<open>argv\<close>, program name included, so
  \<open>argc = length args\<close>. The result is the image written to \<open>argv[1]\<close>. The first
  \<open>outFile.open(outName)\<close> succeeds exactly when the file exists; the second one, for
  writing, clears the stream state when it succeeds. Every \<open>memcpy\<close> and \<open>memset\<close>
  of makerom stays inside its buffer: the directory has 32 slots and the counter is checked
  against 31 before a slot is written, and the file area is resized before the chunks are
  copied.
\<close>

definition makerom_main :: "host \<Rightarrow> string list \<Rightarrow> error + byte list" where
  "makerom_main h args =
     (if length args < 2 then Inl UsageError
      else (let outName = args ! 1
            in if files h outName \<noteq> None then Inl OutputExists
               else case pack_files h (drop 2 args) (initial_state outName) of
                      Inl e \<Rightarrow> Inl e
                    | Inr s \<Rightarrow>
                        (case build_rom s of
                           Inl e \<Rightarrow> Inl e
                         | Inr rom \<Rightarrow>
                             if \<not> creatable h outName then Inl OutputOpenFailed
                             else if \<not> write_good h outName then Inl OutputWriteFailed
                             else Inr rom)))"

section \<open>dumprom\<close>

text \<open>
  A read through a pointer into the image is checked against the buffer's length: outside
  it the source has undefined behaviour, the model the error \<open>OutOfBounds\<close>.
\<close>

definition rd :: "byte list \<Rightarrow> nat \<Rightarrow> error + byte" where
  "rd buf i = (if i < length buf then Inr (buf ! i) else Inl OutOfBounds)"

definition rd_range :: "byte list \<Rightarrow> nat \<Rightarrow> nat \<Rightarrow> error + byte list" where
  "rd_range buf off n =
     (if off + n \<le> length buf then Inr (take n (drop off buf)) else Inl OutOfBounds)"

definition file_area_offset_of :: "byte \<Rightarrow> error + nat" where
  "file_area_offset_of dir_entries =
     (if \<not> (unat dir_entries mod 4 = 0) then Inl AssertionFailed
      else if \<not> (unat dir_entries \<ge> 0 \<and> unat dir_entries \<le> 0x20) then Inl AssertionFailed
      else Inr (unat dir_entries * sizeof_DirEntry))"

definition dir_entry_offset :: "byte \<Rightarrow> nat \<Rightarrow> error + nat" where
  "dir_entry_offset dir_entries dir_entry =
     (if \<not> (dir_entry \<ge> 1) then Inl AssertionFailed
      else if \<not> (dir_entry \<le> unat dir_entries) then Inl AssertionFailed
      else Inr (dir_entry * sizeof_DirEntry))"

definition block_address :: "nat \<Rightarrow> byte \<Rightarrow> error + nat" where
  "block_address fileBase blockNo =
     (if \<not> (unat blockNo \<ge> 1) then Inl AssertionFailed
      else Inr (fileBase + (unat blockNo - 1) * 1024))"

text \<open>
  \<open>ofstream::open\<close> takes the name as a C string: a \<open>std::string\<close> that holds a NUL
  names the file up to that NUL.
\<close>

definition c_str :: "string \<Rightarrow> string" where
  "c_str s = takeWhile (\<lambda>c. c \<noteq> CHR 0x00) s"

text \<open>\<open>trim\<close>: the string up to its first space.\<close>

definition trim :: "string \<Rightarrow> string" where
  "trim s = takeWhile (\<lambda>c. c \<noteq> CHR '' '') s"

text \<open>
  The \<open>std::ofstream outFile\<close>: the files closed so far, in the order they were
  opened, and the file that is open, if one is. A \<open>write\<close> on a stream with no open
  file fails and writes nothing; a successful \<open>open\<close> clears the stream state.
\<close>

record out_state =
  closed_files :: "(string \<times> byte list) list"
  open_file :: "(string \<times> byte list) option"

definition out_close :: "out_state \<Rightarrow> out_state" where
  "out_close st =
     (case open_file st of
        None \<Rightarrow> st
      | Some f \<Rightarrow> \<lparr> closed_files = closed_files st @ [f], open_file = None \<rparr>)"

definition out_open :: "host \<Rightarrow> string \<Rightarrow> out_state \<Rightarrow> error + out_state" where
  "out_open h path st =
     (if creatable h path then Inr (st\<lparr> open_file := Some (path, []) \<rparr>)
      else Inl OutputOpenFailed)"

definition out_write :: "byte list \<Rightarrow> out_state \<Rightarrow> out_state" where
  "out_write bytes st =
     (case open_file st of
        None \<Rightarrow> st
      | Some (path, contents) \<Rightarrow> st\<lparr> open_file := Some (path, contents @ bytes) \<rparr>)"

text \<open>The loop over the 16 entries of an allocation map (lines 152-158 and 170-176).\<close>

fun write_blocks :: "byte list \<Rightarrow> nat \<Rightarrow> byte list \<Rightarrow> out_state \<Rightarrow> error + out_state" where
  "write_blocks rom fileBase [] st = Inr st"
| "write_blocks rom fileBase (b # bs) st =
     (if b \<noteq> 0
      then (case block_address fileBase b of
              Inl e \<Rightarrow> Inl e
            | Inr a \<Rightarrow>
                (case rd_range rom a 1024 of
                   Inl e \<Rightarrow> Inl e
                 | Inr bytes \<Rightarrow> write_blocks rom fileBase bs (out_write bytes st)))
      else write_blocks rom fileBase bs st)"

text \<open>The body of the \<open>while\<close> loop for the entry at offset \<open>off\<close> (lines 133-178).\<close>

definition dump_entry :: "host \<Rightarrow> byte list \<Rightarrow> nat \<Rightarrow> nat \<Rightarrow> out_state \<Rightarrow> error + out_state" where
  "dump_entry h rom fileBase off st =
     (case rd rom (off + off_validity) of
        Inl e \<Rightarrow> Inl e
      | Inr validity \<Rightarrow>
          if validity = 0x00
          then (case rd_range rom off sizeof_DirEntry of
                  Inl e \<Rightarrow> Inl e
                | Inr entry \<Rightarrow>
                    (let allocation_map = take 16 (drop off_allocation_map entry)
                     in if entry ! off_logical_extent = 0
                        then (let st1 = out_close st;
                                  fileName = trim (map char_of_byte (take 8 (drop off_file_name entry)));
                                  extension = trim (map char_of_byte (take 3 (drop off_file_type entry)))
                              in case out_open h (c_str (fileName @ ''.'' @ extension)) st1 of
                                   Inl e \<Rightarrow> Inl e
                                 | Inr st2 \<Rightarrow> write_blocks rom fileBase allocation_map st2)
                        else write_blocks rom fileBase allocation_map st))
          else Inr st)"

text \<open>
  The \<open>while (dirNo <= header->dir_entries)\<close> loop. \<open>dirNo\<close> is a \<open>uint8_t\<close>;
  the loop is only reached after \<open>file_area_offset\<close> has asserted
  \<open>dir_entries <= 0x20\<close>, so \<open>++dirNo\<close> never wraps and the counter is a natural
  number here.
\<close>

function dump_loop :: "host \<Rightarrow> byte list \<Rightarrow> byte \<Rightarrow> nat \<Rightarrow> nat \<Rightarrow> out_state \<Rightarrow> error + out_state" where
  "dump_loop h rom dir_entries fileBase dirNo st =
     (if dirNo \<le> unat dir_entries
      then (case dir_entry_offset dir_entries dirNo of
              Inl e \<Rightarrow> Inl e
            | Inr off \<Rightarrow>
                (case dump_entry h rom fileBase off st of
                   Inl e \<Rightarrow> Inl e
                 | Inr st' \<Rightarrow> dump_loop h rom dir_entries fileBase (dirNo + 1) st'))
      else Inr st)"
  by pat_completeness auto

termination
  by (relation "measure (\<lambda>(h, rom, dir_entries, fileBase, dirNo, st). unat dir_entries + 1 - dirNo)") auto

text \<open>
  \<open>dump_files\<close>: the files written, in the order they were opened. The header test is
  \<open>(id[0] != 0xE5) && (id[1] != 0x37)\<close>; \<open>&&\<close> reads \<open>id[1]\<close> only when the first
  comparison holds, and when it does not the conjunction is false whatever \<open>id[1]\<close> is.
\<close>

definition dump_files :: "host \<Rightarrow> byte list \<Rightarrow> error + (string \<times> byte list) list" where
  "dump_files h rom =
     (case rd rom off_id0 of
        Inl e \<Rightarrow> Inl e
      | Inr id0 \<Rightarrow>
          (case (if id0 \<noteq> 0xE5 then rd rom off_id1 else Inr 0x37) of
             Inl e \<Rightarrow> Inl e
           | Inr id1 \<Rightarrow>
               if (id0 \<noteq> 0xE5) \<and> (id1 \<noteq> 0x37) then Inl NotARom
               else (case rd rom off_dir_entries of
                       Inl e \<Rightarrow> Inl e
                     | Inr dir_entries \<Rightarrow>
                         (case file_area_offset_of dir_entries of
                            Inl e \<Rightarrow> Inl e
                          | Inr fileBase \<Rightarrow>
                              (case dump_loop h rom dir_entries fileBase 1
                                      \<lparr> closed_files = [], open_file = None \<rparr> of
                                 Inl e \<Rightarrow> Inl e
                               | Inr st \<Rightarrow> Inr (closed_files (out_close st)))))))"

text \<open>\<open>main\<close> of dumprom.\<close>

definition dumprom_main :: "host \<Rightarrow> string list \<Rightarrow> error + (string \<times> byte list) list" where
  "dumprom_main h args =
     (if length args \<noteq> 2 then Inl UsageError
      else case files h (args ! 1) of
             None \<Rightarrow> Inl InputOpenFailed
           | Some buffer \<Rightarrow>
               dump_files h (if length buffer = 0x8000 then swap_halves buffer else buffer))"

section \<open>makerom followed by dumprom\<close>

text \<open>
  Run makerom with the command line \<open>args\<close>, then dumprom on the file it wrote
  (\<open>argv[1]\<close> of makerom). The result is the list of files dumprom writes.
\<close>

definition pack_then_unpack :: "host \<Rightarrow> string list \<Rightarrow> error + (string \<times> byte list) list" where
  "pack_then_unpack h args =
     (case makerom_main h args of
        Inl e \<Rightarrow> Inl e
      | Inr rom \<Rightarrow>
          dumprom_main (h\<lparr> files := (files h)(args ! 1 \<mapsto> rom) \<rparr>) [''dumprom'', args ! 1])"

section \<open>Measures used to state the properties\<close>

text \<open>
  The number of directory entries a file occupies: one entry holds 16 block numbers, and a
  file always gets its first entry, even with no block at all.
\<close>

definition extents_needed :: "byte list \<Rightarrow> nat" where
  "extents_needed contents = 1 + (chunks_of contents - 1) div 16"

text \<open>The directory entries a list of inputs occupies, and the bytes it puts in the file area.\<close>

definition slots_needed :: "host \<Rightarrow> string list \<Rightarrow> nat" where
  "slots_needed h args =
     sum_list (map (\<lambda>a. case files h a of None \<Rightarrow> 0 | Some contents \<Rightarrow> extents_needed contents) args)"

definition stored_area :: "host \<Rightarrow> string list \<Rightarrow> byte list" where
  "stored_area h args =
     concat (map (\<lambda>a. case files h a of None \<Rightarrow> [] | Some contents \<Rightarrow> pad_buffer contents) args)"

section \<open>Inputs used as examples\<close>

text \<open>
  A host whose file system holds exactly the listed files, and on which every path can be
  created and written.
\<close>

definition host_with :: "(string \<times> byte list) list \<Rightarrow> host" where
  "host_with fs = \<lparr> files = map_of fs, creatable = (\<lambda>p. True), write_good = (\<lambda>p. True) \<rparr>"

text \<open>
  The directory entry makerom writes for a one-chunk file named \<open>c.T\<close> whose chunk
  becomes block \<open>k\<close>: valid, name and type padded with spaces, extent 0, 8 records, one
  block number.
\<close>

definition entry_1k :: "char \<Rightarrow> byte \<Rightarrow> byte list" where
  "entry_1k c k = [0] @ c_bytes (c # ''       '') @ c_bytes ''T  '' @ [0, 0, 0, 8, k] @ replicate 15 0"

text \<open>
  Four input files of one byte each. \<open>state_ABCD\<close> is the state makerom reaches after
  placing them and \<open>image_ABCD\<close> the image it serialises, before the half swap (both
  proved below).
\<close>

definition host_ABCD :: host where
  "host_ABCD =
     host_with [(''A.T'', [0x41]), (''B.T'', [0x42]), (''C.T'', [0x43]), (''D.T'', [0x44])]"

definition state_ABCD :: pack_state where
  "state_ABCD =
     \<lparr> directory = take 32 (init_directory ''o.rom'')
                @ entry_1k CHR ''A'' 1 @ entry_1k CHR ''B'' 2 @ entry_1k CHR ''C'' 3
                @ entry_1k CHR ''D'' 4 @ replicate 864 0xE5,
            file_area = (0x41 # replicate 1023 0) @ (0x42 # replicate 1023 0)
                @ (0x43 # replicate 1023 0) @ (0x44 # replicate 1023 0),
            currentDirectory = 4, nextAllocation = 5 \<rparr>"

definition image_ABCD :: "byte list" where
  "image_ABCD =
     take 32 (finalise_header state_ABCD)
       @ entry_1k CHR ''A'' 1 @ entry_1k CHR ''B'' 2 @ entry_1k CHR ''C'' 3
       @ (0x41 # replicate 1023 0) @ (0x42 # replicate 1023 0)
       @ (0x43 # replicate 1023 0) @ (0x44 # replicate 1023 0)
       @ replicate 28544 0xff"

text \<open>
  One input file \<open>A.T\<close> of 32 bytes. Its bytes have the layout of a directory entry:
  valid, name \<open>A\<close>, type \<open>T\<close>, logical extent 1, 8 records, block 1.
\<close>

definition forged_entry :: "byte list" where
  "forged_entry = [0] @ c_bytes ''A       '' @ c_bytes ''T  '' @ [1, 0, 0, 8, 1] @ replicate 15 0"

definition host_forged :: host where
  "host_forged = host_with [(''A.T'', forged_entry)]"

definition state_forged :: pack_state where
  "state_forged =
     \<lparr> directory = take 32 (init_directory ''o.rom'') @ entry_1k CHR ''A'' 1 @ replicate 960 0xE5,
       file_area = forged_entry @ replicate 992 0,
       currentDirectory = 1, nextAllocation = 2 \<rparr>"

definition image_forged :: "byte list" where
  "image_forged =
     take 32 (finalise_header state_forged)
       @ entry_1k CHR ''A'' 1 @ replicate 32 0xE5 @ replicate 32 0xE5
       @ (forged_entry @ replicate 992 0)
       @ replicate 31616 0xff"

text \<open>
  One input file \<open>A.T\<close> of one byte. \<open>state_single\<close> is the state makerom reaches after
  placing it, \<open>image_single\<close> the image it serialises, before the half swap, and
  \<open>image_single_head\<close> that image without the unused space after the file area (all
  proved below).
\<close>

definition host_single :: host where
  "host_single = host_with [(''A.T'', [0x41])]"

definition state_single :: pack_state where
  "state_single =
     \<lparr> directory = take 32 (init_directory ''o.rom'') @ entry_1k CHR ''A'' 1 @ replicate 960 0xE5,
       file_area = 0x41 # replicate 1023 0,
       currentDirectory = 1, nextAllocation = 2 \<rparr>"

definition image_single_head :: "byte list" where
  "image_single_head =
     take 32 (finalise_header state_single)
       @ entry_1k CHR ''A'' 1 @ replicate 32 0xE5 @ replicate 32 0xE5
       @ (0x41 # replicate 1023 0)"

definition image_single :: "byte list" where
  "image_single = image_single_head @ replicate 31616 0xff"

section \<open>Lemmas\<close>

subsection \<open>Buffers\<close>

lemma length_memcpy_l:
  "off + length src \<le> length dst \<Longrightarrow> length (memcpy_l dst off src) = length dst"
  by (simp add: memcpy_l_def)

lemma length_memset_l:
  "off + n \<le> length dst \<Longrightarrow> length (memset_l dst off v n) = length dst"
  by (simp add: memset_l_def)

lemma take_memcpy_l:
  "n \<le> off \<Longrightarrow> off \<le> length dst \<Longrightarrow> take n (memcpy_l dst off src) = take n dst"
  by (simp add: memcpy_l_def min_def)

lemma take_memset_l:
  "n \<le> off \<Longrightarrow> off \<le> length dst \<Longrightarrow> take n (memset_l dst off v k) = take n dst"
  by (simp add: memset_l_def min_def)

lemma memcpy_l_append:
  "length a = off \<Longrightarrow> length b = length src \<Longrightarrow> memcpy_l (a @ b @ c) off src = a @ src @ c"
  by (simp add: memcpy_l_def)

lemma unat_byte_Suc: "unat (x :: byte) < 255 \<Longrightarrow> unat (x + 1) = unat x + 1"
  by (simp add: unat_word_ariths)

lemma max_dir_minus_1: "unat MAX_DIR_ENTRIES - Suc 0 = 31" "unat MAX_DIR_ENTRIES - 1 = 31"
  by (simp_all add: MAX_DIR_ENTRIES_def)

subsection \<open>Padding\<close>

lemma chunks_of_bound: "length b \<le> chunks_of b * 1024"
  by (simp add: chunks_of_def)

lemma pad_buffer_eq: "pad_buffer b = b @ replicate (chunks_of b * 1024 - length b) 0"
  using chunks_of_bound [of b] by (simp add: pad_buffer_def Let_def memset_l_def)

lemma length_pad_buffer: "length (pad_buffer b) = chunks_of b * 1024"
  using chunks_of_bound [of b] by (simp add: pad_buffer_eq)

subsection \<open>One chunk\<close>

lemma reserve_entry_length:
  "unat cd * 32 + 32 \<le> length dir \<Longrightarrow> length name = 8 \<Longrightarrow> length type = 3 \<Longrightarrow>
   length (reserve_entry dir cd name type ext) = length dir"
  by (simp add: reserve_entry_def Let_def sizeof_DirEntry_def off_file_name_def off_file_type_def
      off_logical_extent_def length_memcpy_l length_memset_l)

lemma reserve_entry_take:
  "unat cd * 32 + 32 \<le> length dir \<Longrightarrow> length name = 8 \<Longrightarrow> length type = 3 \<Longrightarrow> n \<le> unat cd * 32 \<Longrightarrow>
   take n (reserve_entry dir cd name type ext) = take n dir"
  by (simp add: reserve_entry_def Let_def sizeof_DirEntry_def off_file_name_def off_file_type_def
      off_logical_extent_def length_memcpy_l length_memset_l take_memcpy_l take_memset_l)

lemma chunk_step_file_area:
  assumes "chunk_step name type buffer s = Inr s'"
  shows "file_area s' = memcpy_l (file_area s) (file_area_offset s) (take 1024 (drop (buffer_offset s) buffer))"
    and "file_area_offset s' = file_area_offset s + 1024"
    and "buffer_offset s' = buffer_offset s + 1024"
    and "buffer_offset s + 1024 \<le> length buffer"
    and "file_area_offset s + 1024 \<le> length (file_area s)"
    and "length (file_area s') = length (file_area s)"
proof -
  show a: "file_area s' = memcpy_l (file_area s) (file_area_offset s) (take 1024 (drop (buffer_offset s) buffer))"
    and "file_area_offset s' = file_area_offset s + 1024"
    and "buffer_offset s' = buffer_offset s + 1024"
    and b: "buffer_offset s + 1024 \<le> length buffer"
    and c: "file_area_offset s + 1024 \<le> length (file_area s)"
    using assms by (auto simp: chunk_step_def Let_def split: if_splits)
  show "length (file_area s') = length (file_area s)"
    unfolding a using b c by (simp add: length_memcpy_l)
qed

lemma chunk_step_Inl:
  assumes "chunk_step name type buffer s = Inl e"
    and "buffer_offset s + 1024 \<le> length buffer"
    and "file_area_offset s + 1024 \<le> length (file_area s)"
  shows "e = OutOfDirectorySpace \<and> allocationIndex s \<ge> 16 \<and> unat (currentDirectory s + 1) > 31"
  using assms by (auto simp: chunk_step_def Let_def max_dir_minus_1 split: if_splits)

lemma chunk_step_cd:
  assumes "chunk_step name type buffer s = Inr s'"
  shows "currentDirectory s' = (if allocationIndex s \<ge> 16 then currentDirectory s + 1 else currentDirectory s)"
    and "allocationIndex s' = (if allocationIndex s \<ge> 16 then 1 else allocationIndex s + 1)"
    and "allocationIndex s \<ge> 16 \<Longrightarrow> unat (currentDirectory s + 1) \<le> 31"
    and "nextAllocation s' = nextAllocation s + 1"
  using assms by (auto simp: chunk_step_def Let_def max_dir_minus_1 split: if_splits)

lemma chunk_step_total:
  assumes "allocationIndex s < 16 \<or> unat (currentDirectory s + 1) \<le> 31"
    and "buffer_offset s + 1024 \<le> length buffer"
    and "file_area_offset s + 1024 \<le> length (file_area s)"
  shows "\<exists>s'. chunk_step name type buffer s = Inr s'"
  using assms by (auto simp: chunk_step_def Let_def max_dir_minus_1 split: if_splits)

lemma chunk_step_dir:
  assumes "chunk_step name type buffer s = Inr s'"
    and "length (directory s) = 1024" and "1 \<le> unat (currentDirectory s)" and "unat (currentDirectory s) \<le> 31"
    and "length name = 8" and "length type = 3"
  shows "length (directory s') = 1024" and "take 32 (directory s') = take 32 (directory s)"
  using assms
  by (auto simp: chunk_step_def Let_def max_dir_minus_1 sizeof_DirEntry_def reserve_entry_length
      reserve_entry_take unat_byte_Suc off_record_count_def off_allocation_map_def split: if_splits)

subsection \<open>The loop over the chunks\<close>

lemma chunk_loop_file_area:
  assumes "chunk_loop name type buffer n s = Inr s'"
    and "file_area s = P @ Z" and "length P = file_area_offset s" and "length Z = n * 1024"
    and "buffer_offset s + n * 1024 = length buffer"
  shows "file_area s' = P @ drop (buffer_offset s) buffer"
  using assms
proof (induction n arbitrary: s P Z)
  case 0
  then show ?case by simp
next
  case (Suc n)
  from Suc.prems(1) obtain s1 where
    st: "chunk_step name type buffer s = Inr s1" and lp: "chunk_loop name type buffer n s1 = Inr s'"
    by (auto split: sum.splits)
  let ?C = "take 1024 (drop (buffer_offset s) buffer)"
  have lenC: "length ?C = 1024" using Suc.prems(5) by simp
  have "file_area s1 = memcpy_l (P @ take 1024 Z @ drop 1024 Z) (file_area_offset s) ?C"
    using chunk_step_file_area(1) [OF st] Suc.prems(2) by simp
  also have "\<dots> = P @ ?C @ drop 1024 Z"
    using Suc.prems(3,4) lenC by (intro memcpy_l_append) auto
  finally have fa1: "file_area s1 = (P @ ?C) @ drop 1024 Z" by simp
  have "file_area s' = (P @ ?C) @ drop (buffer_offset s1) buffer"
    using lp fa1
  proof (rule Suc.IH)
    show "length (P @ ?C) = file_area_offset s1"
      using chunk_step_file_area(2) [OF st] Suc.prems(3) lenC by simp
    show "length (drop 1024 Z) = n * 1024" using Suc.prems(4) by simp
    show "buffer_offset s1 + n * 1024 = length buffer"
      using chunk_step_file_area(3) [OF st] Suc.prems(5) by simp
  qed
  moreover have "?C @ drop (buffer_offset s1) buffer = drop (buffer_offset s) buffer"
  proof -
    have "drop (buffer_offset s1) buffer = drop 1024 (drop (buffer_offset s) buffer)"
      using chunk_step_file_area(3) [OF st] by (simp add: add.commute)
    then show ?thesis by (simp only: append_take_drop_id)
  qed
  ultimately show ?case by simp
qed

text \<open>The loop only ends normally on a buffer that holds all the chunks it copies.\<close>

lemma chunk_loop_Inr_bounds:
  assumes "chunk_loop name type buffer n s = Inr s'" and "buffer_offset s \<le> length buffer"
  shows "buffer_offset s + n * 1024 \<le> length buffer"
  using assms
proof (induction n arbitrary: s)
  case 0
  then show ?case by simp
next
  case (Suc n)
  from Suc.prems(1) obtain s1 where
    st: "chunk_step name type buffer s = Inr s1" and lp: "chunk_loop name type buffer n s1 = Inr s'"
    by (auto split: sum.splits)
  have "buffer_offset s1 \<le> length buffer"
    using chunk_step_file_area(3,4) [OF st] by simp
  from Suc.IH [OF lp this] chunk_step_file_area(3) [OF st] show ?case by simp
qed

lemma chunk_loop_overflow:
  assumes "allocationIndex s \<le> 16" and "unat (currentDirectory s) \<le> 31"
    and "unat (currentDirectory s) + (allocationIndex s + n - 1) div 16 > 31"
    and "buffer_offset s + n * 1024 \<le> length buffer"
    and "file_area_offset s + n * 1024 \<le> length (file_area s)"
  shows "chunk_loop name type buffer n s = Inl OutOfDirectorySpace"
  using assms
proof (induction n arbitrary: s)
  case 0
  then show ?case by simp
next
  case (Suc n)
  have b: "buffer_offset s + 1024 \<le> length buffer"
    and f: "file_area_offset s + 1024 \<le> length (file_area s)"
    using Suc.prems(4,5) by simp_all
  show ?case
  proof (cases "chunk_step name type buffer s")
    case (Inl e)
    then show ?thesis using chunk_step_Inl [OF Inl b f] by simp
  next
    case (Inr s1)
    note cd = chunk_step_cd [OF Inr]
    note fa = chunk_step_file_area [OF Inr]
    have "chunk_loop name type buffer n s1 = Inl OutOfDirectorySpace"
    proof (rule Suc.IH)
      show "allocationIndex s1 \<le> 16" using cd(2) Suc.prems(1) by simp
      show "unat (currentDirectory s1) \<le> 31" using cd(1,3) Suc.prems(2) by simp
      show "31 < unat (currentDirectory s1) + (allocationIndex s1 + n - 1) div 16"
      proof (cases "allocationIndex s \<ge> 16")
        case True
        then have a: "allocationIndex s = 16" using Suc.prems(1) by simp
        have "unat (currentDirectory s1) = unat (currentDirectory s) + 1"
          using cd(1) True Suc.prems(2) by (simp add: unat_byte_Suc)
        then show ?thesis using Suc.prems(3) a cd(2) by simp
      next
        case False
        then show ?thesis using Suc.prems(3) cd(1,2) by simp
      qed
      show "buffer_offset s1 + n * 1024 \<le> length buffer" using fa(3) Suc.prems(4) by simp
      show "file_area_offset s1 + n * 1024 \<le> length (file_area s1)"
        using fa(2,6) Suc.prems(5) by simp
    qed
    then show ?thesis using Inr by simp
  qed
qed

lemma chunk_loop_fits:
  assumes "allocationIndex s \<le> 16" and "1 \<le> unat (currentDirectory s)"
    and "unat (currentDirectory s) + (allocationIndex s + n - 1) div 16 \<le> 31"
    and "length (directory s) = 1024" and "length name = 8" and "length type = 3"
    and "buffer_offset s + n * 1024 \<le> length buffer"
    and "file_area_offset s + n * 1024 \<le> length (file_area s)"
  shows "\<exists>s'. chunk_loop name type buffer n s = Inr s'
           \<and> unat (currentDirectory s') = unat (currentDirectory s) + (allocationIndex s + n - 1) div 16
           \<and> length (directory s') = 1024
           \<and> take 32 (directory s') = take 32 (directory s)"
  using assms
proof (induction n arbitrary: s)
  case 0
  then show ?case by simp
next
  case (Suc n)
  have c31: "unat (currentDirectory s) \<le> 31" using Suc.prems(3) by simp
  have b: "buffer_offset s + 1024 \<le> length buffer"
    and f: "file_area_offset s + 1024 \<le> length (file_area s)"
    using Suc.prems(7,8) by simp_all
  have "allocationIndex s < 16 \<or> unat (currentDirectory s + 1) \<le> 31"
  proof (cases "allocationIndex s < 16")
    case False
    then have "allocationIndex s = 16" using Suc.prems(1) by simp
    then have "unat (currentDirectory s) + 1 \<le> 31" using Suc.prems(3) by simp
    then show ?thesis by (simp add: unat_byte_Suc)
  qed simp
  then obtain s1 where st: "chunk_step name type buffer s = Inr s1"
    using chunk_step_total [OF _ b f] by blast
  note cd = chunk_step_cd [OF st]
  note fa = chunk_step_file_area [OF st]
  note dir = chunk_step_dir [OF st Suc.prems(4) Suc.prems(2) c31 Suc.prems(5,6)]
  have cd1: "unat (currentDirectory s1) = unat (currentDirectory s) + (if allocationIndex s \<ge> 16 then 1 else 0)"
    using cd(1) c31 by (simp add: unat_byte_Suc)
  have key: "unat (currentDirectory s1) + (allocationIndex s1 + n - 1) div 16
             = unat (currentDirectory s) + (allocationIndex s + Suc n - 1) div 16"
  proof (cases "allocationIndex s \<ge> 16")
    case True
    then have "allocationIndex s = 16" using Suc.prems(1) by simp
    then show ?thesis using cd1 cd(2) by simp
  next
    case False
    then show ?thesis using cd1 cd(2) by simp
  qed
  have "\<exists>s'. chunk_loop name type buffer n s1 = Inr s'
           \<and> unat (currentDirectory s') = unat (currentDirectory s1) + (allocationIndex s1 + n - 1) div 16
           \<and> length (directory s') = 1024
           \<and> take 32 (directory s') = take 32 (directory s1)"
  proof (rule Suc.IH)
    show "allocationIndex s1 \<le> 16" using cd(2) Suc.prems(1) by simp
    show "1 \<le> unat (currentDirectory s1)" using cd1 Suc.prems(2) by simp
    show "unat (currentDirectory s1) + (allocationIndex s1 + n - 1) div 16 \<le> 31"
      using key Suc.prems(3) by simp
    show "length (directory s1) = 1024" by (rule dir(1))
    show "buffer_offset s1 + n * 1024 \<le> length buffer" using fa(3) Suc.prems(7) by simp
    show "file_area_offset s1 + n * 1024 \<le> length (file_area s1)"
      using fa(2,6) Suc.prems(8) by simp
  qed (rule Suc.prems)+
  then show ?case using st key dir(2) by auto
qed

subsection \<open>One input file\<close>

lemma split_file_name_lengths:
  assumes "split_file_name arg = Inr (name, type)"
  shows "length name = 8" and "length type = 3"
  using assms
  by (auto simp: split_file_name_def Let_def memcpy_l_def c_bytes_def split: option.splits if_splits)

lemma pack_file_unfold:
  assumes "files h arg = Some contents" and "split_file_name arg = Inr (name, type)"
    and "unat (currentDirectory s + 1) \<le> 31"
  shows "pack_file h arg s =
           (case chunk_loop name type (pad_buffer contents) (chunks_of contents)
                   (chunk_init s name type (chunks_of contents)) of
              Inl e \<Rightarrow> Inl e
            | Inr cs' \<Rightarrow> Inr \<lparr> directory = directory cs', file_area = file_area cs',
                               currentDirectory = currentDirectory cs',
                               nextAllocation = nextAllocation cs' \<rparr>)"
  using assms by (simp add: pack_file_def Let_def max_dir_minus_1 chunk_init_def)

lemma pack_file_Inr_valid:
  assumes "pack_file h arg s = Inr s'"
  shows "\<exists>contents name type. files h arg = Some contents \<and> split_file_name arg = Inr (name, type)"
    and "unat (currentDirectory s + 1) \<le> 31"
  using assms
  by (auto simp: pack_file_def Let_def max_dir_minus_1 split: if_splits option.splits sum.splits)

lemma pack_file_file_area:
  assumes "pack_file h arg s = Inr s'" and "files h arg = Some contents"
  shows "file_area s' = file_area s @ pad_buffer contents"
proof -
  from pack_file_Inr_valid [OF assms(1)] assms(2) obtain name type where
    nt: "split_file_name arg = Inr (name, type)" and c: "unat (currentDirectory s + 1) \<le> 31"
    by auto
  let ?cs = "chunk_init s name type (chunks_of contents)"
  from assms(1) pack_file_unfold [OF assms(2) nt c] obtain cs' where
    lp: "chunk_loop name type (pad_buffer contents) (chunks_of contents) ?cs = Inr cs'"
    and s': "file_area s' = file_area cs'"
    by (auto split: sum.splits)
  have "file_area cs' = file_area s @ drop (buffer_offset ?cs) (pad_buffer contents)"
    using lp
  proof (rule chunk_loop_file_area)
    show "file_area ?cs = file_area s @ replicate (chunks_of contents * 1024) 0"
      by (simp add: chunk_init_def)
  qed (simp_all add: chunk_init_def length_pad_buffer)
  then show ?thesis using s' by (simp add: chunk_init_def)
qed

lemma pack_file_overflow:
  assumes "files h arg = Some contents" and "split_file_name arg = Inr (name, type)"
    and "unat (currentDirectory s) \<le> 31"
    and "unat (currentDirectory s) + extents_needed contents > 31"
  shows "pack_file h arg s = Inl OutOfDirectorySpace"
proof (cases "unat (currentDirectory s) = 31")
  case True
  then have "unat (currentDirectory s + 1) = 32" by (simp add: unat_byte_Suc)
  then show ?thesis by (simp add: pack_file_def Let_def max_dir_minus_1)
next
  case False
  then have c: "unat (currentDirectory s + 1) = unat (currentDirectory s) + 1"
    and c31: "unat (currentDirectory s + 1) \<le> 31"
    using assms(3) by (simp_all add: unat_byte_Suc)
  let ?cs = "chunk_init s name type (chunks_of contents)"
  have "chunk_loop name type (pad_buffer contents) (chunks_of contents) ?cs = Inl OutOfDirectorySpace"
  proof (rule chunk_loop_overflow)
    show "31 < unat (currentDirectory ?cs) + (allocationIndex ?cs + chunks_of contents - 1) div 16"
      using assms(4) c by (simp add: chunk_init_def extents_needed_def)
  qed (simp_all add: chunk_init_def c31 length_pad_buffer)
  then show ?thesis using pack_file_unfold [OF assms(1,2) c31] by simp
qed

lemma pack_file_fits:
  assumes "files h arg = Some contents" and "split_file_name arg = Inr (name, type)"
    and "unat (currentDirectory s) + extents_needed contents \<le> 31"
    and "length (directory s) = 1024"
  shows "\<exists>s'. pack_file h arg s = Inr s'
           \<and> unat (currentDirectory s') = unat (currentDirectory s) + extents_needed contents
           \<and> length (directory s') = 1024
           \<and> take 32 (directory s') = take 32 (directory s)"
proof -
  have c: "unat (currentDirectory s + 1) = unat (currentDirectory s) + 1"
    and c31: "unat (currentDirectory s + 1) \<le> 31"
    using assms(3) by (simp_all add: unat_byte_Suc extents_needed_def)
  note len = split_file_name_lengths [OF assms(2)]
  let ?cs = "chunk_init s name type (chunks_of contents)"
  have "\<exists>cs'. chunk_loop name type (pad_buffer contents) (chunks_of contents) ?cs = Inr cs'
           \<and> unat (currentDirectory cs') = unat (currentDirectory ?cs) + (allocationIndex ?cs + chunks_of contents - 1) div 16
           \<and> length (directory cs') = 1024
           \<and> take 32 (directory cs') = take 32 (directory ?cs)"
  proof (rule chunk_loop_fits)
    show "unat (currentDirectory ?cs) + (allocationIndex ?cs + chunks_of contents - 1) div 16 \<le> 31"
      using assms(3) c by (simp add: chunk_init_def extents_needed_def)
    show "length (directory ?cs) = 1024"
      using c31 assms(4) len by (simp add: chunk_init_def reserve_entry_length)
  qed (simp_all add: chunk_init_def c len length_pad_buffer)
  then obtain cs' where
    lp: "chunk_loop name type (pad_buffer contents) (chunks_of contents) ?cs = Inr cs'"
    and cd: "unat (currentDirectory cs') = unat (currentDirectory ?cs) + (allocationIndex ?cs + chunks_of contents - 1) div 16"
    and ln: "length (directory cs') = 1024"
    and tk: "take 32 (directory cs') = take 32 (directory ?cs)"
    by blast
  have "take 32 (directory ?cs) = take 32 (directory s)"
    using c c31 assms(4) len by (simp add: chunk_init_def reserve_entry_take)
  then show ?thesis
    using pack_file_unfold [OF assms(1,2) c31] lp cd ln tk c
    by (simp add: chunk_init_def extents_needed_def)
qed

lemma pack_file_Inr:
  assumes "pack_file h arg s = Inr s'" and "unat (currentDirectory s) \<le> 31"
    and "length (directory s) = 1024"
  shows "\<exists>contents. files h arg = Some contents
           \<and> unat (currentDirectory s') = unat (currentDirectory s) + extents_needed contents
           \<and> unat (currentDirectory s') \<le> 31
           \<and> length (directory s') = 1024
           \<and> take 32 (directory s') = take 32 (directory s)
           \<and> file_area s' = file_area s @ pad_buffer contents"
proof -
  from pack_file_Inr_valid [OF assms(1)] obtain contents name type where
    f: "files h arg = Some contents" and nt: "split_file_name arg = Inr (name, type)"
    by auto
  have fits: "unat (currentDirectory s) + extents_needed contents \<le> 31"
  proof (rule ccontr)
    assume "\<not> ?thesis"
    then have "pack_file h arg s = Inl OutOfDirectorySpace"
      using pack_file_overflow [OF f nt assms(2)] by simp
    then show False using assms(1) by simp
  qed
  from pack_file_fits [OF f nt fits assms(3)] assms(1) fits
    pack_file_file_area [OF assms(1) f] f
  show ?thesis by auto
qed

subsection \<open>All input files\<close>

lemma pack_files_Inr:
  assumes "pack_files h args s = Inr s'" and "unat (currentDirectory s) \<le> 31"
    and "length (directory s) = 1024"
  shows "unat (currentDirectory s') = unat (currentDirectory s) + slots_needed h args
           \<and> unat (currentDirectory s') \<le> 31
           \<and> length (directory s') = 1024
           \<and> take 32 (directory s') = take 32 (directory s)
           \<and> file_area s' = file_area s @ stored_area h args"
  using assms
proof (induction args arbitrary: s)
  case Nil
  then show ?case by (simp add: slots_needed_def stored_area_def)
next
  case (Cons a args)
  from Cons.prems(1) obtain s1 where
    one: "pack_file h a s = Inr s1" and rest: "pack_files h args s1 = Inr s'"
    by (auto split: sum.splits)
  from pack_file_Inr [OF one Cons.prems(2,3)] obtain contents where
    f: "files h a = Some contents"
    and cd: "unat (currentDirectory s1) = unat (currentDirectory s) + extents_needed contents"
    and c31: "unat (currentDirectory s1) \<le> 31"
    and ln: "length (directory s1) = 1024"
    and tk: "take 32 (directory s1) = take 32 (directory s)"
    and fa: "file_area s1 = file_area s @ pad_buffer contents"
    by blast
  from Cons.IH [OF rest c31 ln] cd tk fa f show ?case
    by (simp add: slots_needed_def stored_area_def)
qed

lemma pack_files_overflow:
  assumes "\<forall>a \<in> set args. files h a \<noteq> None \<and> \<not> isl (split_file_name a)"
    and "unat (currentDirectory s) \<le> 31" and "length (directory s) = 1024"
    and "unat (currentDirectory s) + slots_needed h args > 31"
  shows "pack_files h args s = Inl OutOfDirectorySpace"
  using assms
proof (induction args arbitrary: s)
  case Nil
  then show ?case by (simp add: slots_needed_def)
next
  case (Cons a args)
  from Cons.prems(1) obtain contents name type where
    f: "files h a = Some contents" and nt: "split_file_name a = Inr (name, type)"
    by (cases "split_file_name a") auto
  show ?case
  proof (cases "unat (currentDirectory s) + extents_needed contents \<le> 31")
    case True
    from pack_file_fits [OF f nt True Cons.prems(3)] obtain s1 where
      one: "pack_file h a s = Inr s1"
      and cd: "unat (currentDirectory s1) = unat (currentDirectory s) + extents_needed contents"
      and ln: "length (directory s1) = 1024"
      by blast
    have "pack_files h args s1 = Inl OutOfDirectorySpace"
    proof (rule Cons.IH)
      show "\<forall>a \<in> set args. files h a \<noteq> None \<and> \<not> isl (split_file_name a)"
        using Cons.prems(1) by simp
      show "unat (currentDirectory s1) \<le> 31" using cd True by simp
      show "31 < unat (currentDirectory s1) + slots_needed h args"
        using Cons.prems(4) cd f by (simp add: slots_needed_def)
    qed (rule ln)
    then show ?thesis using one by simp
  next
    case False
    then show ?thesis
      using pack_file_overflow [OF f nt Cons.prems(2)] by simp
  qed
qed

lemma pack_files_fits:
  assumes "\<forall>a \<in> set args. files h a \<noteq> None \<and> \<not> isl (split_file_name a)"
    and "length (directory s) = 1024"
    and "unat (currentDirectory s) + slots_needed h args \<le> 31"
  shows "\<exists>s'. pack_files h args s = Inr s'"
  using assms
proof (induction args arbitrary: s)
  case Nil
  then show ?case by simp
next
  case (Cons a args)
  from Cons.prems(1) obtain contents name type where
    f: "files h a = Some contents" and nt: "split_file_name a = Inr (name, type)"
    by (cases "split_file_name a") auto
  have fit: "unat (currentDirectory s) + extents_needed contents \<le> 31"
    using Cons.prems(3) f by (simp add: slots_needed_def)
  from pack_file_fits [OF f nt fit Cons.prems(2)] obtain s1 where
    one: "pack_file h a s = Inr s1"
    and cd: "unat (currentDirectory s1) = unat (currentDirectory s) + extents_needed contents"
    and ln: "length (directory s1) = 1024"
    by blast
  have "\<exists>s'. pack_files h args s1 = Inr s'"
  proof (rule Cons.IH)
    show "\<forall>a \<in> set args. files h a \<noteq> None \<and> \<not> isl (split_file_name a)"
      using Cons.prems(1) by simp
    show "unat (currentDirectory s1) + slots_needed h args \<le> 31"
      using Cons.prems(3) cd f by (simp add: slots_needed_def)
  qed (rule ln)
  then show ?case using one by simp
qed

subsection \<open>The initial directory\<close>

lemma fold_update_length:
  "length (fold (\<lambda>i d. d[f i := v]) is d) = length d"
  by (induction "is" arbitrary: d) auto

lemma fold_update_take:
  "\<forall>i \<in> set is. n \<le> f i \<Longrightarrow> take n (fold (\<lambda>i d. d[f i := v]) is d) = take n d"
  by (induction "is" arbitrary: d) auto

lemma length_invalidate_all: "length (invalidate_all d) = length d"
  by (simp add: invalidate_all_def fold_update_length)

lemma take_invalidate_all: "take 32 (invalidate_all d) = take 32 d"
  unfolding invalidate_all_def
  by (rule fold_update_take) (simp add: sizeof_DirEntry_def)

lemma length_init_directory: "length (init_directory out) = 1024"
  by (simp add: init_directory_def Let_def length_invalidate_all length_memcpy_l length_memset_l
      sizeof_DirEntry_def MAX_DIR_ENTRIES_def c_bytes_def
      off_system_name_def off_rom_name_def off_month_def off_day_def off_year_def)

lemma nth_memcpy_l_before:
  "i < off \<Longrightarrow> off \<le> length dst \<Longrightarrow> memcpy_l dst off src ! i = dst ! i"
  by (simp add: memcpy_l_def nth_append)

lemma nth_memset_l_before:
  "i < off \<Longrightarrow> off \<le> length dst \<Longrightarrow> memset_l dst off v n ! i = dst ! i"
  by (simp add: memset_l_def nth_append)

lemma init_directory_magic:
  "init_directory out ! 0 = 0xE5" "init_directory out ! 1 = 0x37" "init_directory out ! 2 = 0x20"
proof -
  have "\<And>i. i < 32 \<Longrightarrow> init_directory out ! i = take 32 (init_directory out) ! i" by simp
  moreover have "take 32 (init_directory out) ! 0 = 0xE5 \<and> take 32 (init_directory out) ! 1 = 0x37
    \<and> take 32 (init_directory out) ! 2 = 0x20"
    by (simp add: init_directory_def Let_def take_invalidate_all length_memcpy_l length_memset_l
      nth_memcpy_l_before nth_memset_l_before
      sizeof_DirEntry_def MAX_DIR_ENTRIES_def c_bytes_def MAGIC_def MAGIC_M_def CAPACITY_256kbit_def
      off_id0_def off_id1_def off_capacity_def off_dir_entries_def off_v_def off_version_def
      off_system_name_def off_rom_name_def off_month_def off_day_def off_year_def)
  ultimately show "init_directory out ! 0 = 0xE5" "init_directory out ! 1 = 0x37" "init_directory out ! 2 = 0x20"
    by simp_all
qed

subsection \<open>The half swap\<close>

lemma swap_halves_eq:
  assumes "length buf = 0x8000"
  shows "swap_halves buf = drop 0x4000 buf @ take 0x4000 buf"
  using assms by (simp add: swap_halves_def memcpy_l_def Let_def)

lemma length_swap_halves: "length buf = 0x8000 \<Longrightarrow> length (swap_halves buf) = 0x8000"
  by (simp add: swap_halves_eq)

lemma swap_halves_twice:
  assumes "length buf = 0x8000"
  shows "swap_halves (swap_halves buf) = buf"
proof -
  have "swap_halves (swap_halves buf) = drop 0x4000 (swap_halves buf) @ take 0x4000 (swap_halves buf)"
    using assms by (simp add: swap_halves_eq length_swap_halves)
  also have "\<dots> = take 0x4000 buf @ drop 0x4000 buf"
    using assms by (simp add: swap_halves_eq)
  finally show ?thesis by simp
qed

lemma swap_halves_replicate: "swap_halves (replicate 0x8000 v) = replicate 0x8000 v"
  by (simp add: swap_halves_eq flip: replicate_add)

lemma swap_halves_nth:
  assumes "length buf = 0x8000" and "i < 0x4000"
  shows "swap_halves buf ! i = buf ! (i + 0x4000)" and "swap_halves buf ! (i + 0x4000) = buf ! i"
  using assms by (simp_all add: swap_halves_eq nth_append add.commute)


subsection \<open>Header and image\<close>

lemma initial_state_simps:
  "unat (currentDirectory (initial_state out)) = 0"
  "length (directory (initial_state out)) = 1024"
  "file_area (initial_state out) = []"
  "currentDirectory (initial_state out) = 0"
  by (simp_all add: initial_state_def length_init_directory)

lemma initial_state_directory: "directory (initial_state out) = init_directory out"
  by (simp add: initial_state_def)

lemma length_finalise_header: "length (finalise_header s) = length (directory s)"
  by (simp add: finalise_header_def Let_def)

lemma finalise_header_dir_entries:
  "length (directory s) = 1024 \<Longrightarrow>
   finalise_header s ! off_dir_entries = dir_entries_for (currentDirectory s)"
  by (simp add: finalise_header_def Let_def off_dir_entries_def off_checksum_def)

lemma finalise_header_capacity:
  "finalise_header s ! off_capacity = directory s ! 2"
  by (simp add: finalise_header_def Let_def off_dir_entries_def off_checksum_def off_capacity_def)

lemma round4_le: "c \<le> 31 \<Longrightarrow> ((c + 3) div 4) * 4 \<le> (32::nat)"
  by arith

lemma unat_dir_entries:
  assumes "unat (cd :: byte) \<le> 31"
  shows "unat (dir_entries_for cd) = ((unat cd + 3) div 4) * 4"
proof -
  have "((unat cd + 3) div 4) * 4 \<le> 32" using assms by (rule round4_le)
  then have "((unat cd + 3) div 4) * 4 mod 256 = ((unat cd + 3) div 4) * 4" by simp
  then show ?thesis unfolding dir_entries_for_def by (simp only: unat_of_nat) simp
qed

lemma serialise_rom_eq:
  assumes "unat (dir ! off_dir_entries) * 32 = n" and "n \<le> length dir"
    and "n + length fa \<le> 0x8000"
  shows "serialise_rom dir fa = take n dir @ fa @ replicate (0x8000 - n - length fa) 0xff"
  using assms
  by (simp add: serialise_rom_def Let_def memcpy_l_def sizeof_DirEntry_def romSize_def min_def)

lemma length_serialise_rom:
  assumes "unat (dir ! off_dir_entries) * 32 \<le> length dir"
    and "unat (dir ! off_dir_entries) * 32 + length fa \<le> 0x8000"
  shows "length (serialise_rom dir fa) = 0x8000"
  using assms by (simp add: serialise_rom_eq [OF refl])

lemma build_rom_Inr:
  assumes "build_rom s = Inr rom" and "length (directory s) = 1024"
    and "unat (currentDirectory s) \<le> 31" and "directory s ! 2 = 0x20"
  shows "rom = swap_halves (serialise_rom (finalise_header s) (file_area s))"
    and "length (serialise_rom (finalise_header s) (file_area s)) = 0x8000"
    and "((unat (currentDirectory s) + 3) div 4) * 4 * 32 + length (file_area s) \<le> 0x8000"
proof -
  let ?dir = "finalise_header s"
  have de: "unat (?dir ! off_dir_entries) = ((unat (currentDirectory s) + 3) div 4) * 4"
    using assms(2,3) by (simp add: finalise_header_dir_entries unat_dir_entries)
  have fit: "unat (?dir ! off_dir_entries) * 32 + length (file_area s) \<le> 0x8000"
    using assms(1) by (auto simp: build_rom_def Let_def sizeof_DirEntry_def romSize_def split: if_splits)
  show "rom = swap_halves (serialise_rom ?dir (file_area s))"
    using assms(1,4) fit
    by (auto simp: build_rom_def Let_def sizeof_DirEntry_def romSize_def finalise_header_capacity
        CAPACITY_256kbit_def split: if_splits)
  have "unat (?dir ! off_dir_entries) * 32 \<le> length ?dir"
    using round4_le [OF assms(3)] assms(2) de by (simp add: length_finalise_header)
  then show "length (serialise_rom ?dir (file_area s)) = 0x8000"
    using fit by (rule length_serialise_rom)
  show "((unat (currentDirectory s) + 3) div 4) * 4 * 32 + length (file_area s) \<le> 0x8000"
    using fit de by simp
qed

lemma build_rom_fits:
  assumes "length (directory s) = 1024"
    and "unat (currentDirectory s) \<le> 31" and "directory s ! 2 = 0x20"
    and "((unat (currentDirectory s) + 3) div 4) * 4 * 32 + length (file_area s) \<le> 0x8000"
  shows "build_rom s = Inr (swap_halves (serialise_rom (finalise_header s) (file_area s)))"
proof -
  have de: "unat (finalise_header s ! off_dir_entries) = ((unat (currentDirectory s) + 3) div 4) * 4"
    using assms(1,2) by (simp add: finalise_header_dir_entries unat_dir_entries)
  show ?thesis using assms(3,4) de
    by (simp add: build_rom_def Let_def sizeof_DirEntry_def romSize_def finalise_header_capacity
        CAPACITY_256kbit_def)
qed

lemma pack_files_header:
  assumes "pack_files h args (initial_state out) = Inr s"
  shows "length (directory s) = 1024" and "unat (currentDirectory s) \<le> 31"
    and "directory s ! 2 = 0x20"
    and "unat (currentDirectory s) = slots_needed h args"
    and "file_area s = stored_area h args"
    and "take 32 (directory s) = take 32 (init_directory out)"
proof -
  have "unat (currentDirectory (initial_state out)) \<le> 31" by (simp add: initial_state_simps)
  note r = pack_files_Inr [OF assms this initial_state_simps(2), unfolded initial_state_simps initial_state_directory, simplified]
  show "length (directory s) = 1024" "unat (currentDirectory s) \<le> 31"
    "unat (currentDirectory s) = slots_needed h args" "file_area s = stored_area h args"
    "take 32 (directory s) = take 32 (init_directory out)"
    using r by simp_all
  have "directory s ! 2 = take 32 (directory s) ! 2" by simp
  also have "\<dots> = take 32 (init_directory out) ! 2" using r by simp
  finally show "directory s ! 2 = 0x20" by (simp add: init_directory_magic)
qed

lemma makerom_main_Inr:
  assumes "makerom_main h args = Inr rom"
  shows "\<exists>s. pack_files h (drop 2 args) (initial_state (args ! 1)) = Inr s \<and> build_rom s = Inr rom"
    and "2 \<le> length args" and "files h (args ! 1) = None"
    and "creatable h (args ! 1)" and "write_good h (args ! 1)"
  using assms
  by (auto simp: makerom_main_def Let_def split: if_splits sum.splits)

lemma makerom_main_image:
  assumes "makerom_main h args = Inr rom"
  shows "\<exists>s. pack_files h (drop 2 args) (initial_state (args ! 1)) = Inr s
           \<and> rom = swap_halves (serialise_rom (finalise_header s) (file_area s))
           \<and> length (serialise_rom (finalise_header s) (file_area s)) = 0x8000"
proof -
  from makerom_main_Inr(1) [OF assms] obtain s where
    p: "pack_files h (drop 2 args) (initial_state (args ! 1)) = Inr s" and b: "build_rom s = Inr rom"
    by blast
  note hd = pack_files_header [OF p]
  from build_rom_Inr [OF b hd(1,2,3)] p show ?thesis by blast
qed

lemma makerom_main_no_inputs:
  assumes "files h out = None" and "creatable h out" and "write_good h out"
  shows "makerom_main h [prog, out] = Inr (replicate 0x8000 0xff)"
proof -
  let ?s = "initial_state out"
  have de: "finalise_header ?s ! off_dir_entries = 0"
    by (simp add: finalise_header_dir_entries initial_state_simps dir_entries_for_def)
  have "serialise_rom (finalise_header ?s) (file_area ?s) = replicate 0x8000 0xff"
    using de by (simp add: serialise_rom_eq [OF refl] initial_state_simps)
  moreover have "build_rom ?s = Inr (swap_halves (serialise_rom (finalise_header ?s) (file_area ?s)))"
    by (rule build_rom_fits)
       (simp_all add: initial_state_simps initial_state_directory init_directory_magic length_init_directory)
  ultimately have "build_rom ?s = Inr (replicate 0x8000 0xff)"
    by (simp add: swap_halves_replicate)
  then show ?thesis using assms by (simp add: makerom_main_def)
qed

subsection \<open>The directory entry of a one-chunk file\<close>

lemma memcpy_l_mid:
  "length A = b \<Longrightarrow> off + length src \<le> length S \<Longrightarrow>
   memcpy_l (A @ S @ B) (b + off) src = A @ memcpy_l S off src @ B"
  by (simp add: memcpy_l_def)

lemma memset_l_mid:
  "length A = b \<Longrightarrow> off + n \<le> length S \<Longrightarrow>
   memset_l (A @ S @ B) (b + off) v n = A @ memset_l S off v n @ B"
  by (simp add: memset_l_def)

lemma update_mid:
  "length A = b \<Longrightarrow> k < length S \<Longrightarrow> (A @ S @ B)[b + k := v] = A @ S[k := v] @ B"
  by (simp add: list_update_append)

lemma nth_mid:
  "length A = b \<Longrightarrow> k < length S \<Longrightarrow> (A @ S @ B) ! (b + k) = S ! k"
  by (simp add: nth_append)

lemma slot_reserve:
  assumes "length name = 8" and "length type = 3" and "length S = 32"
  shows "(memcpy_l (memcpy_l (memset_l S 0 0 32) 1 name) 9 type)[12 := e]
         = [0] @ name @ type @ [e] @ replicate 19 0"
  using assms
  by (simp add: memcpy_l_def memset_l_def eval_nat_numeral list_update_append)

lemma slot_first_chunk:
  assumes "length name = 8" and "length type = 3"
  shows "(([0] @ name @ type @ [e] @ replicate 19 0)
            [15 := ([0] @ name @ type @ [e] @ replicate 19 0) ! 15 + 8])[16 := na]
         = [0] @ name @ type @ [e, 0, 0, 8, na] @ replicate 15 (0 :: byte)"
  using assms
  by (simp add: eval_nat_numeral list_update_append nth_append)

lemma reserve_entry_mid:
  assumes "length A = unat cd * 32" and "length S = 32" and "length name = 8" and "length type = 3"
  shows "reserve_entry (A @ S @ B) cd name type ext =
           A @ (memcpy_l (memcpy_l (memset_l S 0 0 32) 1 name) 9 type)[12 := of_nat ext] @ B"
proof -
  let ?b = "unat cd * 32"
  let ?S1 = "memset_l S 0 0 32"
  let ?S2 = "memcpy_l ?S1 1 name"
  let ?S3 = "memcpy_l ?S2 9 type"
  have l1: "length ?S1 = 32" using assms(2) by (simp add: length_memset_l)
  have l2: "length ?S2 = 32" using assms(3) l1 by (simp add: length_memcpy_l)
  have l3: "length ?S3 = 32" using assms(4) l2 by (simp add: length_memcpy_l)
  have 1: "memset_l (A @ S @ B) ?b 0 32 = A @ ?S1 @ B"
    using memset_l_mid [where A = A and b = ?b and off = 0 and n = 32 and S = S and B = B and v = 0]
      assms(1,2) by simp
  have 2: "memcpy_l (A @ ?S1 @ B) (?b + 1) name = A @ ?S2 @ B"
    using assms(1,3) l1 by (intro memcpy_l_mid) simp_all
  have 3: "memcpy_l (A @ ?S2 @ B) (?b + 9) type = A @ ?S3 @ B"
    using assms(1,4) l2 by (intro memcpy_l_mid) simp_all
  have 4: "(A @ ?S3 @ B)[?b + 12 := of_nat ext] = A @ ?S3[12 := of_nat ext] @ B"
    using assms(1) l3 by (intro update_mid) simp_all
  show ?thesis
    unfolding reserve_entry_def Let_def sizeof_DirEntry_def off_file_name_def off_file_type_def
      off_logical_extent_def
    by (simp only: 1 2 3 4)
qed

lemma split3:
  assumes "b + 32 \<le> length dir"
  shows "dir = take b dir @ take 32 (drop b dir) @ drop (b + 32) dir"
    and "length (take b dir) = b" and "length (take 32 (drop b dir)) = 32"
proof -
  have a: "take 32 (drop b dir) @ drop 32 (drop b dir) = drop b dir"
    by (rule append_take_drop_id)
  have b: "drop 32 (drop b dir) = drop (b + 32) dir" by (simp add: add.commute)
  have "take b dir @ take 32 (drop b dir) @ drop (b + 32) dir = take b dir @ drop b dir"
    using a unfolding b by (simp only:)
  then show "dir = take b dir @ take 32 (drop b dir) @ drop (b + 32) dir"
    by (simp only: append_take_drop_id)
  show "length (take b dir) = b" "length (take 32 (drop b dir)) = 32" using assms by simp_all
qed

lemma reserve_entry_eq:
  assumes "length name = 8" and "length type = 3" and "unat cd * 32 + 32 \<le> length dir"
  shows "reserve_entry dir cd name type ext =
           take (unat cd * 32) dir @ ([0] @ name @ type @ [of_nat ext] @ replicate 19 0)
             @ drop (unat cd * 32 + 32) dir"
proof -
  note sp = split3 [OF assms(3)]
  have "reserve_entry dir cd name type ext =
          reserve_entry (take (unat cd * 32) dir @ take 32 (drop (unat cd * 32) dir)
            @ drop (unat cd * 32 + 32) dir) cd name type ext"
    using sp(1) by simp
  also have "\<dots> = take (unat cd * 32) dir
      @ (memcpy_l (memcpy_l (memset_l (take 32 (drop (unat cd * 32) dir)) 0 0 32) 1 name) 9 type)
          [12 := of_nat ext]
      @ drop (unat cd * 32 + 32) dir"
    using sp(2,3) assms(1,2) by (rule reserve_entry_mid)
  also have "(memcpy_l (memcpy_l (memset_l (take 32 (drop (unat cd * 32) dir)) 0 0 32) 1 name) 9 type)
          [12 := of_nat ext] = [0] @ name @ type @ [of_nat ext] @ replicate 19 0"
    using assms(1,2) sp(3) by (rule slot_reserve)
  finally show ?thesis .
qed

lemma chunk_step_first:
  assumes "chunk_step name type buffer s = Inr s'" and "allocationIndex s = 0"
    and "directory s = A @ ([0] @ n8 @ t3 @ [e] @ replicate 19 0) @ B"
    and "length A = unat (currentDirectory s) * 32" and "length n8 = 8" and "length t3 = 3"
  shows "directory s' = A @ ([0] @ n8 @ t3 @ [e, 0, 0, 8, nextAllocation s] @ replicate 15 0) @ B"
proof -
  let ?b = "unat (currentDirectory s) * 32"
  let ?E = "[0] @ n8 @ t3 @ [e] @ replicate 19 (0 :: byte)"
  have lE: "length ?E = 32" using assms(5,6) by simp
  have "directory s' = ((directory s)[?b + 15 := directory s ! (?b + 15) + 8])[?b + 16 := nextAllocation s]"
    using assms(1,2)
    by (auto simp: chunk_step_def Let_def sizeof_DirEntry_def off_record_count_def
        off_allocation_map_def split: if_splits)
  also have "\<dots> = ((A @ ?E @ B)[?b + 15 := (A @ ?E @ B) ! (?b + 15) + 8])[?b + 16 := nextAllocation s]"
    by (simp only: assms(3))
  also have "(A @ ?E @ B) ! (?b + 15) = ?E ! 15"
    using assms(4) lE by (intro nth_mid) simp_all
  also have "(A @ ?E @ B)[?b + 15 := ?E ! 15 + 8] = A @ ?E[15 := ?E ! 15 + 8] @ B"
    using assms(4) lE by (intro update_mid) simp_all
  also have "(A @ ?E[15 := ?E ! 15 + 8] @ B)[?b + 16 := nextAllocation s]
             = A @ (?E[15 := ?E ! 15 + 8])[16 := nextAllocation s] @ B"
    using assms(4) lE by (intro update_mid) simp_all
  also have "(?E[15 := ?E ! 15 + 8])[16 := nextAllocation s]
             = [0] @ n8 @ t3 @ [e, 0, 0, 8, nextAllocation s] @ replicate 15 0"
    using assms(5,6) by (rule slot_first_chunk)
  finally show ?thesis .
qed

lemma pack_file_one_chunk:
  assumes "files h arg = Some contents" and "split_file_name arg = Inr (name, type)"
    and "chunks_of contents = 1" and "unat (currentDirectory s) < 31"
    and "length (directory s) = 1024"
  shows "pack_file h arg s =
           Inr \<lparr> directory = take (unat (currentDirectory s + 1) * 32) (directory s)
                    @ ([0] @ name @ type @ [0, 0, 0, 8, nextAllocation s] @ replicate 15 0)
                    @ drop (unat (currentDirectory s + 1) * 32 + 32) (directory s),
                  file_area = file_area s @ pad_buffer contents,
                  currentDirectory = currentDirectory s + 1,
                  nextAllocation = nextAllocation s + 1 \<rparr>"
proof -
  have c: "unat (currentDirectory s + 1) = unat (currentDirectory s) + 1"
    and c31: "unat (currentDirectory s + 1) \<le> 31"
    using assms(4) by (simp_all add: unat_byte_Suc)
  note len = split_file_name_lengths [OF assms(2)]
  let ?cs = "chunk_init s name type 1"
  have fits: "unat (currentDirectory s) + extents_needed contents \<le> 31"
    using assms(3,4) by (simp add: extents_needed_def)
  from pack_file_fits [OF assms(1,2) fits assms(5)] obtain s' where
    p: "pack_file h arg s = Inr s'" by blast
  from p pack_file_unfold [OF assms(1,2) c31] assms(3) obtain cs' where
    st: "chunk_step name type (pad_buffer contents) ?cs = Inr cs'"
    and s': "s' = \<lparr> directory = directory cs', file_area = file_area cs',
                    currentDirectory = currentDirectory cs', nextAllocation = nextAllocation cs' \<rparr>"
    by (auto split: sum.splits)
  have d0: "directory ?cs = take (unat (currentDirectory s + 1) * 32) (directory s)
              @ ([0] @ name @ type @ [0] @ replicate 19 0)
              @ drop (unat (currentDirectory s + 1) * 32 + 32) (directory s)"
    using reserve_entry_eq [OF len, of "currentDirectory s + 1" "directory s" 0] c31 assms(5)
    by (simp add: chunk_init_def)
  have "directory cs' = take (unat (currentDirectory s + 1) * 32) (directory s)
              @ ([0] @ name @ type @ [0, 0, 0, 8, nextAllocation ?cs] @ replicate 15 0)
              @ drop (unat (currentDirectory s + 1) * 32 + 32) (directory s)"
    using st _ d0
  proof (rule chunk_step_first)
    show "length (take (unat (currentDirectory s + 1) * 32) (directory s))
            = unat (currentDirectory ?cs) * 32"
      using c31 assms(5) by (simp add: chunk_init_def)
  qed (simp_all add: chunk_init_def len)
  moreover have "file_area s' = file_area s @ pad_buffer contents"
    using p assms(1) by (rule pack_file_file_area)
  moreover have "currentDirectory cs' = currentDirectory s + 1" "nextAllocation cs' = nextAllocation s + 1"
    using chunk_step_cd [OF st] by (simp_all add: chunk_init_def)
  ultimately show ?thesis using p s' by (simp add: chunk_init_def)
qed

subsection \<open>Directory entries needed\<close>

lemma extents_needed_pos: "1 \<le> extents_needed contents"
  by (simp add: extents_needed_def)

lemma slots_needed_ge_length:
  assumes "\<forall>a \<in> set args. files h a \<noteq> None"
  shows "length args \<le> slots_needed h args"
  using assms
proof (induction args)
  case Nil
  then show ?case by (simp add: slots_needed_def)
next
  case (Cons a args)
  then obtain contents where "files h a = Some contents" by auto
  moreover have "length args \<le> slots_needed h args" using Cons by simp
  ultimately show ?case using extents_needed_pos [of contents]
    by (simp add: slots_needed_def)
qed

lemma build_rom_error: "build_rom s = Inl e \<Longrightarrow> e = OutOfRomSpace"
  by (auto simp: build_rom_def Let_def split: if_splits)

lemma split_A_T: "split_file_name ''A.T'' = Inr (c_bytes ''A       '', c_bytes ''T  '')"
  by (simp add: split_file_name_def Let_def memcpy_l_def c_bytes_def eval_nat_numeral)

subsection \<open>The directory walk\<close>

declare dump_loop.simps [simp del]

lemma dump_loop_stop:
  "unat dir_entries < dirNo \<Longrightarrow> dump_loop h rom dir_entries fileBase dirNo st = Inr st"
  by (subst dump_loop.simps) simp

lemma dump_loop_step:
  "1 \<le> dirNo \<Longrightarrow> dirNo \<le> unat dir_entries \<Longrightarrow>
   dump_loop h rom dir_entries fileBase dirNo st =
     (case dump_entry h rom fileBase (dirNo * 32) st of
        Inl e \<Rightarrow> Inl e
      | Inr st' \<Rightarrow> dump_loop h rom dir_entries fileBase (dirNo + 1) st')"
  by (subst dump_loop.simps) (simp add: dir_entry_offset_def sizeof_DirEntry_def)

lemma dump_files_unfold:
  assumes "22 < length rom"
  shows "dump_files h rom =
     (if rom ! 0 \<noteq> 0xE5 \<and> rom ! 1 \<noteq> 0x37 then Inl NotARom
      else case file_area_offset_of (rom ! 22) of
             Inl e \<Rightarrow> Inl e
           | Inr fileBase \<Rightarrow>
               (case dump_loop h rom (rom ! 22) fileBase 1 \<lparr> closed_files = [], open_file = None \<rparr> of
                  Inl e \<Rightarrow> Inl e
                | Inr st \<Rightarrow> Inr (closed_files (out_close st))))"
proof -
  have "rom \<noteq> []" "Suc 0 < length rom" using assms by auto
  then show ?thesis using assms
    by (simp add: dump_files_def rd_def off_id0_def off_id1_def off_dir_entries_def)
qed

lemma dump_files_assertion:
  assumes "22 < length rom" and "\<not> (rom ! 0 \<noteq> 0xE5 \<and> rom ! 1 \<noteq> 0x37)"
    and "0x20 < unat (rom ! 22) \<or> unat (rom ! 22) mod 4 \<noteq> 0"
  shows "dump_files h rom = Inl AssertionFailed"
  using assms by (auto simp: dump_files_unfold file_area_offset_of_def)

lemma dump_files_empty_directory:
  assumes "22 < length rom" and "\<not> (rom ! 0 \<noteq> 0xE5 \<and> rom ! 1 \<noteq> 0x37)" and "rom ! 22 = 0"
  shows "dump_files h rom = Inr []"
  using assms
  by (simp add: dump_files_unfold file_area_offset_of_def dump_loop_stop out_close_def)

subsection \<open>The shape of the directory\<close>

lemma drop_memcpy_l:
  "off + length src \<le> n \<Longrightarrow> n \<le> length dst \<Longrightarrow> drop n (memcpy_l dst off src) = drop n dst"
  by (simp add: memcpy_l_def)

lemma drop_memset_l:
  "off + k \<le> n \<Longrightarrow> n \<le> length dst \<Longrightarrow> drop n (memset_l dst off v k) = drop n dst"
  by (simp add: memset_l_def)

lemma fold_update_same:
  "\<forall>i \<in> set is. f i < length d \<longrightarrow> d ! f i = v \<Longrightarrow> fold (\<lambda>i d. d[f i := v]) is d = d"
proof (induction "is")
  case Nil
  then show ?case by simp
next
  case (Cons a "is")
  have "d[f a := v] = d"
  proof (cases "f a < length d")
    case True
    then show ?thesis using Cons.prems by (simp add: list_update_same_conv)
  next
    case False
    then have "length d \<le> f a" by simp
    then show ?thesis by (rule list_update_beyond)
  qed
  then show ?case using Cons by simp
qed

lemma init_directory_shape:
  "init_directory out = take 32 (init_directory out) @ replicate 992 0xE5"
proof -
  define d13 where "d13 =
     (let d0 = replicate (sizeof_DirEntry * unat MAX_DIR_ENTRIES) DIR_ENTRY_INVALID;
          d1 = d0[off_id0 := MAGIC];
          d2 = d1[off_id1 := MAGIC_M];
          d3 = d2[off_capacity := CAPACITY_256kbit];
          d4 = memcpy_l d3 off_system_name (c_bytes ''H80'');
          d5 = memset_l d4 off_rom_name (byte_of_char (CHR '' '')) 14;
          d6 = memcpy_l d5 off_rom_name
                 (c_bytes (take (if length out > 14 then 14 else length out) out));
          d7 = d6[off_dir_entries := 4];
          d8 = d7[off_v := byte_of_char (CHR ''V'')];
          d9 = d8[off_version := byte_of_char (CHR ''1'')];
          d10 = d9[off_version + 1 := byte_of_char (CHR ''0'')];
          d11 = memcpy_l d10 off_month (c_bytes ''11'');
          d12 = memcpy_l d11 off_day (c_bytes ''16'')
      in memcpy_l d12 off_year (c_bytes ''20''))"
  have init: "init_directory out = invalidate_all d13"
    by (simp add: init_directory_def d13_def Let_def)
  have len: "length d13 = 1024"
    by (simp add: d13_def Let_def length_memcpy_l length_memset_l
      sizeof_DirEntry_def MAX_DIR_ENTRIES_def c_bytes_def
      off_system_name_def off_rom_name_def off_month_def off_day_def off_year_def)
  have tail: "drop 32 d13 = replicate 992 0xE5"
    by (simp add: d13_def Let_def length_memcpy_l length_memset_l drop_memcpy_l drop_memset_l
      sizeof_DirEntry_def MAX_DIR_ENTRIES_def c_bytes_def DIR_ENTRY_INVALID_def
      off_id0_def off_id1_def off_capacity_def off_dir_entries_def off_v_def off_version_def
      off_system_name_def off_rom_name_def off_month_def off_day_def off_year_def)
  have nth: "d13 ! k = 0xE5" if "32 \<le> k" "k < 1024" for k
  proof -
    have "d13 ! k = drop 32 d13 ! (k - 32)" using that len by simp
    then show ?thesis using that by (simp add: tail)
  qed
  have "invalidate_all d13 = d13"
    unfolding invalidate_all_def DIR_ENTRY_INVALID_def
    by (rule fold_update_same) (auto simp: len sizeof_DirEntry_def off_validity_def intro!: nth)
  then have "init_directory out = take 32 d13 @ drop 32 d13" using init by simp
  then show ?thesis using tail len init by simp
qed

lemma pack_file_one_chunk_shaped:
  assumes "files h arg = Some contents" and "split_file_name arg = Inr (name, type)"
    and "chunks_of contents = 1" and "unat (currentDirectory s) < 31"
    and "directory s = P @ replicate m 0xE5"
    and "length P = (unat (currentDirectory s) + 1) * 32" and "length P + m = 1024"
  shows "pack_file h arg s =
           Inr \<lparr> directory = (P @ [0] @ name @ type @ [0, 0, 0, 8, nextAllocation s] @ replicate 15 0)
                                @ replicate (m - 32) 0xE5,
                  file_area = file_area s @ pad_buffer contents,
                  currentDirectory = currentDirectory s + 1,
                  nextAllocation = nextAllocation s + 1 \<rparr>"
proof -
  have c: "unat (currentDirectory s + 1) * 32 = length P"
    using assms(4,6) by (simp add: unat_byte_Suc)
  have len: "length (directory s) = 1024" using assms(5,7) by simp
  have m: "32 \<le> m" using assms(4,6,7) by simp
  have t: "take (length P) (directory s) = P" using assms(5) by simp
  have d: "drop (length P + 32) (directory s) = replicate (m - 32) 0xE5"
    using assms(5) m by simp
  show ?thesis
    using pack_file_one_chunk [OF assms(1,2,3,4) len] unfolding c t d by simp
qed

subsection \<open>Reading a directory entry\<close>

lemma rd_range_at:
  "length A = off \<Longrightarrow> length S = n \<Longrightarrow> rd_range (A @ S @ B) off n = Inr S"
  by (simp add: rd_range_def)

lemma rd_at: "length A = off \<Longrightarrow> rd (A @ x # B) off = Inr x"
  by (simp add: rd_def nth_append)

lemma rd_of_rd_range:
  assumes "rd_range rom off n = Inr S" and "0 < n"
  shows "rd rom off = Inr (S ! 0)"
proof -
  from assms have b: "off + n \<le> length rom" and S: "S = take n (drop off rom)"
    by (auto simp: rd_range_def split: if_splits)
  have "S ! 0 = rom ! off" using b assms(2) unfolding S by simp
  then show ?thesis using b assms(2) by (simp add: rd_def)
qed

lemma char_of_byte_inverse: "char_of_byte (byte_of_char c) = c"
proof -
  have "(of_char c :: nat) < 256"
    by (metis of_char_mod_256 mod_less_divisor zero_less_numeral)
  then have "unat (of_nat (of_char c) :: byte) = of_char c"
    by (simp add: unat_of_nat)
  then show ?thesis by (simp add: char_of_byte_def byte_of_char_def)
qed

lemma chars_of_c_bytes: "map char_of_byte (c_bytes s) = s"
  by (induction s) (simp_all add: c_bytes_def char_of_byte_inverse)

lemma write_blocks_zeros: "write_blocks rom fileBase (replicate n 0) st = Inr st"
  by (induction n) simp_all

lemma write_blocks_one:
  assumes "k \<noteq> 0" and "rd_range rom (fileBase + (unat k - 1) * 1024) 1024 = Inr blk"
  shows "write_blocks rom fileBase (k # replicate n 0) st = Inr (out_write blk st)"
proof -
  have "1 \<le> unat k" using assms(1) by (simp add: unat_gt_0 Suc_le_eq)
  then show ?thesis using assms by (simp add: block_address_def write_blocks_zeros)
qed

lemma dump_entry_invalid:
  "rd rom off = Inr v \<Longrightarrow> v \<noteq> 0 \<Longrightarrow> dump_entry h rom fileBase off st = Inr st"
  by (simp add: dump_entry_def off_validity_def)

lemma dump_entry_one_block:
  assumes "rd_range rom off 32 = Inr ([0] @ n8 @ t3 @ [e, z1, z2, rc, k] @ replicate 15 0)"
    and "length n8 = 8" and "length t3 = 3" and "k \<noteq> 0"
    and "rd_range rom (fileBase + (unat k - 1) * 1024) 1024 = Inr blk"
  shows "dump_entry h rom fileBase off st =
           (if e = 0
            then (case out_open h (c_str (trim (map char_of_byte n8) @ ''.'' @ trim (map char_of_byte t3)))
                         (out_close st) of
                    Inl x \<Rightarrow> Inl x
                  | Inr st2 \<Rightarrow> Inr (out_write blk st2))
            else Inr (out_write blk st))"
proof -
  let ?entry = "[0] @ n8 @ t3 @ [e, z1, z2, rc, k] @ replicate 15 0"
  have v: "rd rom off = Inr 0" using rd_of_rd_range [OF assms(1)] by simp
  have e: "?entry ! 12 = e" using assms(2,3) by (simp add: nth_append)
  have m: "take 16 (drop 16 ?entry) = k # replicate 15 0" using assms(2,3) by simp
  have n: "take 8 (drop 1 ?entry) = n8" using assms(2,3) by simp
  have t: "take 3 (drop 9 ?entry) = t3" using assms(2,3) by simp
  note wb = write_blocks_one [OF assms(4,5)]
  have "dump_entry h rom fileBase off st =
          (if e = 0
           then (case out_open h (c_str (trim (map char_of_byte n8) @ ''.'' @ trim (map char_of_byte t3)))
                         (out_close st) of
                    Inl x \<Rightarrow> Inl x
                  | Inr st2 \<Rightarrow> write_blocks rom fileBase (k # replicate 15 0) st2)
           else write_blocks rom fileBase (k # replicate 15 0) st)"
    unfolding dump_entry_def off_validity_def off_logical_extent_def off_allocation_map_def
      off_file_name_def off_file_type_def sizeof_DirEntry_def Let_def add_0_right
    by (simp only: v assms(1) e m n t sum.case if_True refl)
  then show ?thesis
    by (cases "e = 0") (simp_all only: wb if_True if_False)
qed

subsection \<open>Steps of the directory walk\<close>

lemma dump_loop_step_file:
  assumes "1 \<le> dirNo" and "dirNo \<le> unat dir_entries"
    and "rd_range rom (dirNo * 32) 32 = Inr ([0] @ n8 @ t3 @ [0, z1, z2, rc, k] @ replicate 15 0)"
    and "length n8 = 8" and "length t3 = 3" and "k \<noteq> 0"
    and "rd_range rom (fileBase + (unat k - 1) * 1024) 1024 = Inr blk"
    and "creatable h (c_str (trim (map char_of_byte n8) @ ''.'' @ trim (map char_of_byte t3)))"
  shows "dump_loop h rom dir_entries fileBase dirNo st =
           dump_loop h rom dir_entries fileBase (dirNo + 1)
             \<lparr> closed_files = closed_files (out_close st),
               open_file = Some (c_str (trim (map char_of_byte n8) @ ''.'' @ trim (map char_of_byte t3)), blk) \<rparr>"
proof -
  have "dump_entry h rom fileBase (dirNo * 32) st =
          Inr \<lparr> closed_files = closed_files (out_close st),
                open_file = Some (c_str (trim (map char_of_byte n8) @ ''.'' @ trim (map char_of_byte t3)), blk) \<rparr>"
    using assms(8)
    by (simp add: dump_entry_one_block [OF assms(3,4,5,6,7)] out_open_def out_write_def out_close_def
        split: option.splits)
  then show ?thesis by (simp add: dump_loop_step [OF assms(1,2)])
qed

lemma dump_loop_step_continuation:
  assumes "1 \<le> dirNo" and "dirNo \<le> unat dir_entries"
    and "rd_range rom (dirNo * 32) 32 = Inr ([0] @ n8 @ t3 @ [e, z1, z2, rc, k] @ replicate 15 0)"
    and "length n8 = 8" and "length t3 = 3" and "e \<noteq> 0" and "k \<noteq> 0"
    and "rd_range rom (fileBase + (unat k - 1) * 1024) 1024 = Inr blk"
  shows "dump_loop h rom dir_entries fileBase dirNo st =
           dump_loop h rom dir_entries fileBase (dirNo + 1) (out_write blk st)"
  using assms(6)
  by (simp add: dump_loop_step [OF assms(1,2)] dump_entry_one_block [OF assms(3,4,5,7,8)])

lemma dump_loop_step_invalid:
  assumes "1 \<le> dirNo" and "dirNo \<le> unat dir_entries"
    and "rd rom (dirNo * 32) = Inr v" and "v \<noteq> 0"
  shows "dump_loop h rom dir_entries fileBase dirNo st =
           dump_loop h rom dir_entries fileBase (dirNo + 1) st"
  by (simp add: dump_loop_step [OF assms(1,2)] dump_entry_invalid [OF assms(3,4)])

subsection \<open>Helpers for the examples\<close>

lemma finalise_header_shape:
  assumes "32 \<le> length (directory s)"
  shows "finalise_header s = take 32 (finalise_header s) @ drop 32 (directory s)"
proof -
  have "drop 32 (finalise_header s) = drop 32 (directory s)"
    by (simp add: finalise_header_def Let_def off_dir_entries_def off_checksum_def)
  then show ?thesis by (metis append_take_drop_id)
qed

lemma finalise_header_magic:
  "finalise_header s ! 0 = directory s ! 0" "finalise_header s ! 1 = directory s ! 1"
  by (simp_all add: finalise_header_def Let_def off_dir_entries_def off_checksum_def)

lemma split_one_letter:
  "c \<noteq> CHR ''.'' \<Longrightarrow>
   split_file_name [c, CHR ''.'', CHR ''T''] = Inr (c_bytes (c # ''       ''), c_bytes ''T  '')"
  by (simp add: split_file_name_def Let_def memcpy_l_def c_bytes_def eval_nat_numeral)

lemma trim_one_letter: "c \<noteq> CHR '' '' \<Longrightarrow> trim (c # ''       '') = [c]"
  by (simp add: trim_def)

lemma pad_one_byte: "pad_buffer [b] = b # replicate 1023 0" "chunks_of [b] = 1"
  by (simp_all add: pad_buffer_eq chunks_of_def)

subsection \<open>The four one-byte files\<close>

lemma length_entry_1k: "length (entry_1k c k) = 32"
  by (simp add: entry_1k_def c_bytes_def)

lemma pack_ABCD:
  "pack_files host_ABCD [''A.T'', ''B.T'', ''C.T'', ''D.T''] (initial_state ''o.rom'') =
     Inr \<lparr> directory = take 32 (init_directory ''o.rom'')
                @ entry_1k CHR ''A'' 1 @ entry_1k CHR ''B'' 2 @ entry_1k CHR ''C'' 3
                @ entry_1k CHR ''D'' 4 @ replicate 864 0xE5,
            file_area = (0x41 # replicate 1023 0) @ (0x42 # replicate 1023 0)
                @ (0x43 # replicate 1023 0) @ (0x44 # replicate 1023 0),
            currentDirectory = 4, nextAllocation = 5 \<rparr>"
proof -
  let ?H = "take 32 (init_directory ''o.rom'')"
  have lH: "length ?H = 32" by (simp add: length_init_directory)
  let ?s0 = "\<lparr> directory = ?H @ replicate 992 0xE5, file_area = [],
                currentDirectory = 0, nextAllocation = 1 \<rparr>"
  let ?s1 = "\<lparr> directory = (?H @ entry_1k CHR ''A'' 1) @ replicate 960 0xE5,
                file_area = 0x41 # replicate 1023 0,
                currentDirectory = 1, nextAllocation = 2 \<rparr>"
  let ?s2 = "\<lparr> directory = ((?H @ entry_1k CHR ''A'' 1) @ entry_1k CHR ''B'' 2) @ replicate 928 0xE5,
                file_area = (0x41 # replicate 1023 0) @ (0x42 # replicate 1023 0),
                currentDirectory = 2, nextAllocation = 3 \<rparr>"
  let ?s3 = "\<lparr> directory = (((?H @ entry_1k CHR ''A'' 1) @ entry_1k CHR ''B'' 2)
                    @ entry_1k CHR ''C'' 3) @ replicate 896 0xE5,
                file_area = (0x41 # replicate 1023 0) @ (0x42 # replicate 1023 0)
                    @ (0x43 # replicate 1023 0),
                currentDirectory = 3, nextAllocation = 4 \<rparr>"
  let ?s4 = "\<lparr> directory = ((((?H @ entry_1k CHR ''A'' 1) @ entry_1k CHR ''B'' 2)
                    @ entry_1k CHR ''C'' 3) @ entry_1k CHR ''D'' 4) @ replicate 864 0xE5,
                file_area = (0x41 # replicate 1023 0) @ (0x42 # replicate 1023 0)
                    @ (0x43 # replicate 1023 0) @ (0x44 # replicate 1023 0),
                currentDirectory = 4, nextAllocation = 5 \<rparr>"
  have s0: "initial_state ''o.rom'' = ?s0"
    using init_directory_shape [of "''o.rom''"] by (simp add: initial_state_def)
  have 1: "pack_file host_ABCD ''A.T'' ?s0 = Inr ?s1"
    using pack_file_one_chunk_shaped [of host_ABCD "''A.T''" "[0x41]" _ _ ?s0 ?H 992]
    by (simp add: host_ABCD_def host_with_def split_one_letter pad_one_byte length_init_directory entry_1k_def)
  have 2: "pack_file host_ABCD ''B.T'' ?s1 = Inr ?s2"
    using pack_file_one_chunk_shaped [of host_ABCD "''B.T''" "[0x42]" _ _ ?s1
        "?H @ entry_1k CHR ''A'' 1" 960]
    by (simp add: host_ABCD_def host_with_def split_one_letter pad_one_byte length_init_directory length_entry_1k)
       (simp add: entry_1k_def)
  have 3: "pack_file host_ABCD ''C.T'' ?s2 = Inr ?s3"
    using pack_file_one_chunk_shaped [of host_ABCD "''C.T''" "[0x43]" _ _ ?s2
        "(?H @ entry_1k CHR ''A'' 1) @ entry_1k CHR ''B'' 2" 928]
    by (simp add: host_ABCD_def host_with_def split_one_letter pad_one_byte length_init_directory length_entry_1k)
       (simp add: entry_1k_def)
  have 4: "pack_file host_ABCD ''D.T'' ?s3 = Inr ?s4"
    using pack_file_one_chunk_shaped [of host_ABCD "''D.T''" "[0x44]" _ _ ?s3
        "((?H @ entry_1k CHR ''A'' 1) @ entry_1k CHR ''B'' 2) @ entry_1k CHR ''C'' 3" 896]
    by (simp add: host_ABCD_def host_with_def split_one_letter pad_one_byte length_init_directory length_entry_1k)
       (simp add: entry_1k_def)
  have "pack_files host_ABCD [''A.T'', ''B.T'', ''C.T'', ''D.T''] ?s0 = Inr ?s4"
    by (simp only: pack_files.simps 1 2 3 4 sum.case)
  then show ?thesis unfolding s0 by simp
qed

lemma makerom_main_of_pack:
  assumes "2 \<le> length args" and "files h (args ! 1) = None"
    and "creatable h (args ! 1)" and "write_good h (args ! 1)"
    and "pack_files h (drop 2 args) (initial_state (args ! 1)) = Inr s"
    and "((unat (currentDirectory s) + 3) div 4) * 4 * 32 + length (file_area s) \<le> 0x8000"
  shows "makerom_main h args = Inr (swap_halves (serialise_rom (finalise_header s) (file_area s)))"
proof -
  note hd = pack_files_header [OF assms(5)]
  have "build_rom s = Inr (swap_halves (serialise_rom (finalise_header s) (file_area s)))"
    using hd(1,2,3) assms(6) by (rule build_rom_fits)
  then show ?thesis using assms(1-5) by (simp add: makerom_main_def)
qed

lemma state_ABCD_header:
  "length (finalise_header state_ABCD) = 1024"
  "unat (finalise_header state_ABCD ! 22) = 4"
  "finalise_header state_ABCD ! 0 = 0xE5"
proof -
  have len: "length (directory state_ABCD) = 1024"
    by (simp add: state_ABCD_def length_init_directory length_entry_1k)
  then show "length (finalise_header state_ABCD) = 1024" by (simp add: length_finalise_header)
  have "currentDirectory state_ABCD = 4" by (simp add: state_ABCD_def)
  then show "unat (finalise_header state_ABCD ! 22) = 4"
    using finalise_header_dir_entries [OF len] unat_dir_entries [of "4 :: byte"]
    by (simp add: off_dir_entries_def)
  have "directory state_ABCD ! 0 = take 32 (init_directory ''o.rom'') ! 0"
    by (simp add: state_ABCD_def nth_append length_init_directory)
  then show "finalise_header state_ABCD ! 0 = 0xE5"
    by (simp add: finalise_header_magic init_directory_magic)
qed

lemma serialise_ABCD: "serialise_rom (finalise_header state_ABCD) (file_area state_ABCD) = image_ABCD"
proof -
  let ?F = "finalise_header state_ABCD"
  have F: "?F = take 32 ?F @ entry_1k CHR ''A'' 1 @ entry_1k CHR ''B'' 2 @ entry_1k CHR ''C'' 3
                @ entry_1k CHR ''D'' 4 @ replicate 864 0xE5"
    using finalise_header_shape [of state_ABCD]
    by (simp add: state_ABCD_def length_init_directory length_entry_1k)
  have lH: "length (take 32 ?F) = 32" by (simp add: state_ABCD_header)
  have "take 128 ?F = take 128 (take 32 ?F @ entry_1k CHR ''A'' 1 @ entry_1k CHR ''B'' 2
                @ entry_1k CHR ''C'' 3 @ entry_1k CHR ''D'' 4 @ replicate 864 0xE5)"
    using F by simp
  also have "\<dots> = take 32 ?F @ entry_1k CHR ''A'' 1 @ entry_1k CHR ''B'' 2 @ entry_1k CHR ''C'' 3"
    using lH by (simp add: length_entry_1k)
  finally have t: "take 128 ?F = take 32 ?F @ entry_1k CHR ''A'' 1 @ entry_1k CHR ''B'' 2
                     @ entry_1k CHR ''C'' 3" .
  have "serialise_rom ?F (file_area state_ABCD)
          = take 128 ?F @ file_area state_ABCD @ replicate (0x8000 - 128 - length (file_area state_ABCD)) 0xff"
    by (rule serialise_rom_eq)
       (simp_all add: state_ABCD_header off_dir_entries_def, simp_all add: state_ABCD_def)
  then show ?thesis unfolding t by (simp add: image_ABCD_def) (simp add: state_ABCD_def)
qed

lemma makerom_ABCD:
  "makerom_main host_ABCD [''makerom'', ''o.rom'', ''A.T'', ''B.T'', ''C.T'', ''D.T'']
     = Inr (swap_halves image_ABCD)"
proof -
  have p: "pack_files host_ABCD (drop 2 [''makerom'', ''o.rom'', ''A.T'', ''B.T'', ''C.T'', ''D.T''])
             (initial_state ([''makerom'', ''o.rom'', ''A.T'', ''B.T'', ''C.T'', ''D.T''] ! 1))
           = Inr state_ABCD"
    using pack_ABCD by (simp add: state_ABCD_def)
  have "makerom_main host_ABCD [''makerom'', ''o.rom'', ''A.T'', ''B.T'', ''C.T'', ''D.T'']
     = Inr (swap_halves (serialise_rom (finalise_header state_ABCD) (file_area state_ABCD)))"
    using _ _ _ _ p
    by (rule makerom_main_of_pack) (simp_all add: host_ABCD_def host_with_def, simp add: state_ABCD_def)
  then show ?thesis by (simp only: serialise_ABCD)
qed

lemma length_image_ABCD: "length image_ABCD = 0x8000"
  by (simp add: image_ABCD_def state_ABCD_header length_entry_1k)

lemma length_c_bytes: "length (c_bytes s) = length s"
  by (simp add: c_bytes_def)

lemma entry_1k_form:
  "entry_1k c k = [0] @ c_bytes (c # ''       '') @ c_bytes ''T  '' @ [0, 0, 0, 8, k] @ replicate 15 0"
  by (simp add: entry_1k_def)

lemma image_ABCD_reads:
  "rd_range image_ABCD 32 32 = Inr (entry_1k CHR ''A'' 1)"
  "rd_range image_ABCD 64 32 = Inr (entry_1k CHR ''B'' 2)"
  "rd_range image_ABCD 96 32 = Inr (entry_1k CHR ''C'' 3)"
  "rd_range image_ABCD 128 1024 = Inr (0x41 # replicate 1023 0)"
  "rd_range image_ABCD 1152 1024 = Inr (0x42 # replicate 1023 0)"
  "rd_range image_ABCD 2176 1024 = Inr (0x43 # replicate 1023 0)"
proof -
  let ?H = "take 32 (finalise_header state_ABCD)"
  let ?EA = "entry_1k CHR ''A'' 1" and ?EB = "entry_1k CHR ''B'' 2" and ?EC = "entry_1k CHR ''C'' 3"
  let ?PA = "0x41 # replicate 1023 (0 :: byte)" and ?PB = "0x42 # replicate 1023 (0 :: byte)"
  let ?PC = "0x43 # replicate 1023 (0 :: byte)" and ?PD = "0x44 # replicate 1023 (0 :: byte)"
  let ?R = "replicate 28544 (0xff :: byte)"
  have lH: "length ?H = 32" using state_ABCD_header(1) by simp
  note le = length_entry_1k
  have "rd_range (?H @ ?EA @ (?EB @ ?EC @ ?PA @ ?PB @ ?PC @ ?PD @ ?R)) 32 32 = Inr ?EA"
    by (rule rd_range_at) (simp_all add: state_ABCD_header le)
  then show "rd_range image_ABCD 32 32 = Inr ?EA" by (simp add: image_ABCD_def)
  have "rd_range ((?H @ ?EA) @ ?EB @ (?EC @ ?PA @ ?PB @ ?PC @ ?PD @ ?R)) 64 32 = Inr ?EB"
    by (rule rd_range_at) (simp_all add: state_ABCD_header le)
  then show "rd_range image_ABCD 64 32 = Inr ?EB" by (simp add: image_ABCD_def)
  have "rd_range ((?H @ ?EA @ ?EB) @ ?EC @ (?PA @ ?PB @ ?PC @ ?PD @ ?R)) 96 32 = Inr ?EC"
    by (rule rd_range_at) (simp_all add: state_ABCD_header le)
  then show "rd_range image_ABCD 96 32 = Inr ?EC" by (simp add: image_ABCD_def)
  have "rd_range ((?H @ ?EA @ ?EB @ ?EC) @ ?PA @ (?PB @ ?PC @ ?PD @ ?R)) 128 1024 = Inr ?PA"
    by (rule rd_range_at) (simp_all add: state_ABCD_header le)
  then show "rd_range image_ABCD 128 1024 = Inr ?PA" by (simp add: image_ABCD_def)
  have "rd_range ((?H @ ?EA @ ?EB @ ?EC @ ?PA) @ ?PB @ (?PC @ ?PD @ ?R)) 1152 1024 = Inr ?PB"
    by (rule rd_range_at) (simp_all add: state_ABCD_header le)
  then show "rd_range image_ABCD 1152 1024 = Inr ?PB" by (simp add: image_ABCD_def)
  have "rd_range ((?H @ ?EA @ ?EB @ ?EC @ ?PA @ ?PB) @ ?PC @ (?PD @ ?R)) 2176 1024 = Inr ?PC"
    by (rule rd_range_at) (simp_all add: state_ABCD_header le)
  then show "rd_range image_ABCD 2176 1024 = Inr ?PC" by (simp add: image_ABCD_def)
qed

lemma image_ABCD_header:
  "image_ABCD ! 0 = 0xE5" "image_ABCD ! 22 = 4"
proof -
  have "unat (finalise_header state_ABCD ! 22) = unat (4 :: byte)"
    by (simp add: state_ABCD_header)
  then have "finalise_header state_ABCD ! 22 = 4" by (simp only: word_unat_eq_iff)
  then show "image_ABCD ! 22 = 4"
    by (simp add: image_ABCD_def nth_append state_ABCD_header)
  show "image_ABCD ! 0 = 0xE5"
    by (simp add: image_ABCD_def nth_append state_ABCD_header)
qed

lemma dump_ABCD:
  assumes "\<And>p. creatable h p"
  shows "dump_files h image_ABCD =
           Inr [(''A.T'', 0x41 # replicate 1023 0), (''B.T'', 0x42 # replicate 1023 0),
                (''C.T'', 0x43 # replicate 1023 0)]"
proof -
  note r = image_ABCD_reads
  let ?st0 = "\<lparr> closed_files = [], open_file = None \<rparr>"
  have "dump_loop h image_ABCD 4 128 (Suc 0) ?st0 =
        dump_loop h image_ABCD 4 128 (Suc (Suc 0))
          \<lparr> closed_files = [], open_file = Some (''A.T'', 0x41 # replicate 1023 0) \<rparr>"
    using dump_loop_step_file [of "Suc 0" 4 image_ABCD "c_bytes ''A       ''" "c_bytes ''T  ''" 0 0 8 1
        128 "0x41 # replicate 1023 0" h ?st0] r(1,4) assms
    by (simp add: entry_1k_form length_c_bytes chars_of_c_bytes trim_def c_str_def out_close_def)
  also have "\<dots> = dump_loop h image_ABCD 4 128 (Suc (Suc (Suc 0)))
          \<lparr> closed_files = [(''A.T'', 0x41 # replicate 1023 0)],
            open_file = Some (''B.T'', 0x42 # replicate 1023 0) \<rparr>"
    using dump_loop_step_file [of "Suc (Suc 0)" 4 image_ABCD "c_bytes ''B       ''" "c_bytes ''T  ''" 0 0 8 2
        128 "0x42 # replicate 1023 0" h
        "\<lparr> closed_files = [], open_file = Some (''A.T'', 0x41 # replicate 1023 0) \<rparr>"] r(2,5) assms
    by (simp add: entry_1k_form length_c_bytes chars_of_c_bytes trim_def c_str_def out_close_def)
  also have "\<dots> = dump_loop h image_ABCD 4 128 (Suc (Suc (Suc (Suc 0))))
          \<lparr> closed_files = [(''A.T'', 0x41 # replicate 1023 0), (''B.T'', 0x42 # replicate 1023 0)],
            open_file = Some (''C.T'', 0x43 # replicate 1023 0) \<rparr>"
    using dump_loop_step_file [of "Suc (Suc (Suc 0))" 4 image_ABCD "c_bytes ''C       ''" "c_bytes ''T  ''" 0 0 8 3
        128 "0x43 # replicate 1023 0" h
        "\<lparr> closed_files = [(''A.T'', 0x41 # replicate 1023 0)],
           open_file = Some (''B.T'', 0x42 # replicate 1023 0) \<rparr>"] r(3,6) assms
    by (simp add: entry_1k_form length_c_bytes chars_of_c_bytes trim_def c_str_def out_close_def)
  also have "\<dots> = dump_loop h image_ABCD 4 128 (Suc (Suc (Suc (Suc (Suc 0)))))
          \<lparr> closed_files = [(''A.T'', 0x41 # replicate 1023 0), (''B.T'', 0x42 # replicate 1023 0)],
            open_file = Some (''C.T'', 0x43 # replicate 1023 0) \<rparr>"
    using dump_loop_step_invalid [of "Suc (Suc (Suc (Suc 0)))" 4 image_ABCD "0x41" h 128] rd_of_rd_range [OF r(4)]
    by simp
  also have "\<dots> = Inr \<lparr> closed_files = [(''A.T'', 0x41 # replicate 1023 0), (''B.T'', 0x42 # replicate 1023 0)],
            open_file = Some (''C.T'', 0x43 # replicate 1023 0) \<rparr>"
    by (rule dump_loop_stop) simp
  finally have loop: "dump_loop h image_ABCD 4 128 (Suc 0) ?st0 =
      Inr \<lparr> closed_files = [(''A.T'', 0x41 # replicate 1023 0), (''B.T'', 0x42 # replicate 1023 0)],
            open_file = Some (''C.T'', 0x43 # replicate 1023 0) \<rparr>" .
  have "22 < length image_ABCD" by (simp add: length_image_ABCD)
  then show ?thesis
    by (simp add: dump_files_unfold image_ABCD_header file_area_offset_of_def sizeof_DirEntry_def
        loop out_close_def)
qed

subsection \<open>The file that looks like a directory entry\<close>

lemma length_forged_entry: "length forged_entry = 32"
  by (simp add: forged_entry_def length_c_bytes)

lemma pad_forged: "pad_buffer forged_entry = forged_entry @ replicate 992 0" "chunks_of forged_entry = 1"
  by (simp_all add: pad_buffer_eq chunks_of_def length_forged_entry)

lemma pack_forged:
  "pack_files host_forged [''A.T''] (initial_state ''o.rom'') = Inr state_forged"
proof -
  let ?H = "take 32 (init_directory ''o.rom'')"
  let ?s0 = "\<lparr> directory = ?H @ replicate 992 0xE5, file_area = [],
                currentDirectory = 0, nextAllocation = 1 \<rparr>"
  have s0: "initial_state ''o.rom'' = ?s0"
    using init_directory_shape [of "''o.rom''"] by (simp add: initial_state_def)
  have "pack_file host_forged ''A.T'' ?s0 = Inr state_forged"
    using pack_file_one_chunk_shaped [of host_forged "''A.T''" forged_entry _ _ ?s0 ?H 992]
    by (simp add: host_forged_def host_with_def split_one_letter pad_forged length_init_directory entry_1k_def
        state_forged_def)
  then show ?thesis unfolding s0 by simp
qed

lemma state_forged_header:
  "length (finalise_header state_forged) = 1024"
  "unat (finalise_header state_forged ! 22) = 4"
  "finalise_header state_forged ! 0 = 0xE5"
proof -
  have len: "length (directory state_forged) = 1024"
    by (simp add: state_forged_def length_init_directory length_entry_1k)
  then show "length (finalise_header state_forged) = 1024" by (simp add: length_finalise_header)
  have "currentDirectory state_forged = 1" by (simp add: state_forged_def)
  then show "unat (finalise_header state_forged ! 22) = 4"
    using finalise_header_dir_entries [OF len] unat_dir_entries [of "1 :: byte"]
    by (simp add: off_dir_entries_def)
  have "directory state_forged ! 0 = take 32 (init_directory ''o.rom'') ! 0"
    by (simp add: state_forged_def nth_append length_init_directory)
  then show "finalise_header state_forged ! 0 = 0xE5"
    by (simp add: finalise_header_magic init_directory_magic)
qed

lemma serialise_forged:
  "serialise_rom (finalise_header state_forged) (file_area state_forged) = image_forged"
proof -
  let ?F = "finalise_header state_forged"
  have F: "?F = take 32 ?F @ entry_1k CHR ''A'' 1 @ replicate 960 0xE5"
    using finalise_header_shape [of state_forged]
    by (simp add: state_forged_def length_init_directory length_entry_1k)
  have "take 128 ?F = take 128 (take 32 ?F @ entry_1k CHR ''A'' 1 @ replicate 960 0xE5)"
    using F by simp
  also have "\<dots> = take 32 ?F @ entry_1k CHR ''A'' 1 @ replicate 64 0xE5"
    using state_forged_header(1) by (simp add: length_entry_1k)
  also have "replicate 64 (0xE5 :: byte) = replicate 32 0xE5 @ replicate 32 0xE5"
    by (simp flip: replicate_add)
  finally have t: "take 128 ?F = take 32 ?F @ entry_1k CHR ''A'' 1
                     @ replicate 32 0xE5 @ replicate 32 0xE5" .
  have "serialise_rom ?F (file_area state_forged)
          = take 128 ?F @ file_area state_forged
              @ replicate (0x8000 - 128 - length (file_area state_forged)) 0xff"
    by (rule serialise_rom_eq)
       (simp_all add: state_forged_header off_dir_entries_def,
        simp_all add: state_forged_def length_forged_entry)
  then show ?thesis unfolding t
    by (simp add: image_forged_def) (simp add: state_forged_def length_forged_entry)
qed

lemma makerom_forged:
  "makerom_main host_forged [''makerom'', ''o.rom'', ''A.T''] = Inr (swap_halves image_forged)"
proof -
  have p: "pack_files host_forged (drop 2 [''makerom'', ''o.rom'', ''A.T''])
             (initial_state ([''makerom'', ''o.rom'', ''A.T''] ! 1)) = Inr state_forged"
    using pack_forged by simp
  have "makerom_main host_forged [''makerom'', ''o.rom'', ''A.T'']
     = Inr (swap_halves (serialise_rom (finalise_header state_forged) (file_area state_forged)))"
    using _ _ _ _ p
    by (rule makerom_main_of_pack)
       (simp_all add: host_forged_def host_with_def, simp add: state_forged_def length_forged_entry)
  then show ?thesis by (simp only: serialise_forged)
qed

lemma length_image_forged: "length image_forged = 0x8000"
  by (simp add: image_forged_def state_forged_header length_entry_1k length_forged_entry)

lemma image_forged_reads:
  "rd_range image_forged 32 32 = Inr (entry_1k CHR ''A'' 1)"
  "rd_range image_forged 64 32 = Inr (replicate 32 0xE5)"
  "rd_range image_forged 96 32 = Inr (replicate 32 0xE5)"
  "rd_range image_forged 128 32 = Inr forged_entry"
  "rd_range image_forged 128 1024 = Inr (forged_entry @ replicate 992 0)"
proof -
  let ?H = "take 32 (finalise_header state_forged)"
  let ?EA = "entry_1k CHR ''A'' 1"
  let ?I = "replicate 32 (0xE5 :: byte)"
  let ?Z = "replicate 992 (0 :: byte)"
  let ?R = "replicate 31616 (0xff :: byte)"
  note l = state_forged_header length_entry_1k length_forged_entry
  have "rd_range (?H @ ?EA @ (?I @ ?I @ (forged_entry @ ?Z) @ ?R)) 32 32 = Inr ?EA"
    by (rule rd_range_at) (simp_all add: l)
  then show "rd_range image_forged 32 32 = Inr ?EA" by (simp add: image_forged_def)
  have "rd_range ((?H @ ?EA) @ ?I @ (?I @ (forged_entry @ ?Z) @ ?R)) 64 32 = Inr ?I"
    by (rule rd_range_at) (simp_all add: l)
  then show "rd_range image_forged 64 32 = Inr ?I" by (simp add: image_forged_def)
  have "rd_range ((?H @ ?EA @ ?I) @ ?I @ ((forged_entry @ ?Z) @ ?R)) 96 32 = Inr ?I"
    by (rule rd_range_at) (simp_all add: l)
  then show "rd_range image_forged 96 32 = Inr ?I" by (simp add: image_forged_def)
  have "rd_range ((?H @ ?EA @ ?I @ ?I) @ forged_entry @ (?Z @ ?R)) 128 32 = Inr forged_entry"
    by (rule rd_range_at) (simp_all add: l)
  then show "rd_range image_forged 128 32 = Inr forged_entry" by (simp add: image_forged_def)
  have "rd_range ((?H @ ?EA @ ?I @ ?I) @ (forged_entry @ ?Z) @ ?R) 128 1024 = Inr (forged_entry @ ?Z)"
    by (rule rd_range_at) (simp_all add: l)
  then show "rd_range image_forged 128 1024 = Inr (forged_entry @ ?Z)"
    by (simp add: image_forged_def)
qed

lemma image_forged_header:
  "image_forged ! 0 = 0xE5" "image_forged ! 22 = 4"
proof -
  have "unat (finalise_header state_forged ! 22) = unat (4 :: byte)"
    by (simp add: state_forged_header)
  then have "finalise_header state_forged ! 22 = 4" by (simp only: word_unat_eq_iff)
  then show "image_forged ! 22 = 4"
    by (simp add: image_forged_def nth_append state_forged_header)
  show "image_forged ! 0 = 0xE5"
    by (simp add: image_forged_def nth_append state_forged_header)
qed

lemma dump_forged:
  assumes "\<And>p. creatable h p"
  shows "dump_files h image_forged =
           Inr [(''A.T'', (forged_entry @ replicate 992 0) @ (forged_entry @ replicate 992 0))]"
proof -
  note r = image_forged_reads
  let ?P = "forged_entry @ replicate 992 0"
  let ?st0 = "\<lparr> closed_files = [], open_file = None \<rparr>"
  let ?st1 = "\<lparr> closed_files = [], open_file = Some (''A.T'', ?P) \<rparr>"
  have "dump_loop h image_forged 4 128 (Suc 0) ?st0 =
        dump_loop h image_forged 4 128 (Suc (Suc 0)) ?st1"
    using dump_loop_step_file [of "Suc 0" 4 image_forged "c_bytes ''A       ''" "c_bytes ''T  ''"
        0 0 8 1 128 ?P h ?st0] r(1,5) assms
    by (simp add: entry_1k_form length_c_bytes chars_of_c_bytes trim_def c_str_def out_close_def)
  also have "\<dots> = dump_loop h image_forged 4 128 (Suc (Suc (Suc 0))) ?st1"
    using dump_loop_step_invalid [of "Suc (Suc 0)" 4 image_forged "0xE5" h 128]
      rd_of_rd_range [OF r(2)]
    by simp
  also have "\<dots> = dump_loop h image_forged 4 128 (Suc (Suc (Suc (Suc 0)))) ?st1"
    using dump_loop_step_invalid [of "Suc (Suc (Suc 0))" 4 image_forged "0xE5" h 128]
      rd_of_rd_range [OF r(3)]
    by simp
  also have "\<dots> = dump_loop h image_forged 4 128 (Suc (Suc (Suc (Suc (Suc 0)))))
                     \<lparr> closed_files = [], open_file = Some (''A.T'', ?P @ ?P) \<rparr>"
    using dump_loop_step_continuation [of "Suc (Suc (Suc (Suc 0)))" 4 image_forged
        "c_bytes ''A       ''" "c_bytes ''T  ''" 1 0 0 8 1 128 ?P h ?st1] r(4,5)
    by (simp add: forged_entry_def length_c_bytes out_write_def)
  also have "\<dots> = Inr \<lparr> closed_files = [], open_file = Some (''A.T'', ?P @ ?P) \<rparr>"
    by (rule dump_loop_stop) simp
  finally have loop: "dump_loop h image_forged 4 128 (Suc 0) ?st0 =
      Inr \<lparr> closed_files = [], open_file = Some (''A.T'', ?P @ ?P) \<rparr>" .
  have "22 < length image_forged" by (simp add: length_image_forged)
  then show ?thesis
    by (simp add: dump_files_unfold image_forged_header file_area_offset_of_def sizeof_DirEntry_def
        loop out_close_def)
qed

subsection \<open>One one-byte file\<close>

lemma pack_single:
  "pack_files host_single [''A.T''] (initial_state ''o.rom'') = Inr state_single"
proof -
  let ?H = "take 32 (init_directory ''o.rom'')"
  let ?s0 = "\<lparr> directory = ?H @ replicate 992 0xE5, file_area = [],
                currentDirectory = 0, nextAllocation = 1 \<rparr>"
  have s0: "initial_state ''o.rom'' = ?s0"
    using init_directory_shape [of "''o.rom''"] by (simp add: initial_state_def)
  have "pack_file host_single ''A.T'' ?s0 = Inr state_single"
    using pack_file_one_chunk_shaped [of host_single "''A.T''" "[0x41]" _ _ ?s0 ?H 992]
    by (simp add: host_single_def host_with_def split_one_letter pad_one_byte length_init_directory
        entry_1k_def state_single_def)
  then show ?thesis unfolding s0 by simp
qed

lemma state_single_header:
  "length (finalise_header state_single) = 1024"
  "unat (finalise_header state_single ! 22) = 4"
  "finalise_header state_single ! 0 = 0xE5"
proof -
  have len: "length (directory state_single) = 1024"
    by (simp add: state_single_def length_init_directory length_entry_1k)
  then show "length (finalise_header state_single) = 1024" by (simp add: length_finalise_header)
  have "currentDirectory state_single = 1" by (simp add: state_single_def)
  then show "unat (finalise_header state_single ! 22) = 4"
    using finalise_header_dir_entries [OF len] unat_dir_entries [of "1 :: byte"]
    by (simp add: off_dir_entries_def)
  have "directory state_single ! 0 = take 32 (init_directory ''o.rom'') ! 0"
    by (simp add: state_single_def nth_append length_init_directory)
  then show "finalise_header state_single ! 0 = 0xE5"
    by (simp add: finalise_header_magic init_directory_magic)
qed

lemma serialise_single:
  "serialise_rom (finalise_header state_single) (file_area state_single) = image_single"
proof -
  let ?F = "finalise_header state_single"
  have F: "?F = take 32 ?F @ entry_1k CHR ''A'' 1 @ replicate 960 0xE5"
    using finalise_header_shape [of state_single]
    by (simp add: state_single_def length_init_directory length_entry_1k)
  have "take 128 ?F = take 128 (take 32 ?F @ entry_1k CHR ''A'' 1 @ replicate 960 0xE5)"
    using F by simp
  also have "\<dots> = take 32 ?F @ entry_1k CHR ''A'' 1 @ replicate 64 0xE5"
    using state_single_header(1) by (simp add: length_entry_1k)
  also have "replicate 64 (0xE5 :: byte) = replicate 32 0xE5 @ replicate 32 0xE5"
    by (simp flip: replicate_add)
  finally have t: "take 128 ?F = take 32 ?F @ entry_1k CHR ''A'' 1
                     @ replicate 32 0xE5 @ replicate 32 0xE5" .
  have "serialise_rom ?F (file_area state_single)
          = take 128 ?F @ file_area state_single
              @ replicate (0x8000 - 128 - length (file_area state_single)) 0xff"
    by (rule serialise_rom_eq)
       (simp_all add: state_single_header off_dir_entries_def,
        simp_all add: state_single_def)
  then show ?thesis unfolding t
    by (simp add: image_single_def image_single_head_def) (simp add: state_single_def)
qed

lemma makerom_single:
  "makerom_main host_single [''makerom'', ''o.rom'', ''A.T''] = Inr (swap_halves image_single)"
proof -
  have p: "pack_files host_single (drop 2 [''makerom'', ''o.rom'', ''A.T''])
             (initial_state ([''makerom'', ''o.rom'', ''A.T''] ! 1)) = Inr state_single"
    using pack_single by simp
  have "makerom_main host_single [''makerom'', ''o.rom'', ''A.T'']
     = Inr (swap_halves (serialise_rom (finalise_header state_single) (file_area state_single)))"
    using _ _ _ _ p
    by (rule makerom_main_of_pack)
       (simp_all add: host_single_def host_with_def, simp add: state_single_def)
  then show ?thesis by (simp only: serialise_single)
qed

lemma length_image_single_head: "length image_single_head = 1152"
  by (simp add: image_single_head_def state_single_header length_entry_1k)

lemma length_image_single: "length image_single = 0x8000"
  by (simp add: image_single_def length_image_single_head)

lemma image_single_reads:
  "rd_range (image_single_head @ R) 32 32 = Inr (entry_1k CHR ''A'' 1)"
  "rd_range (image_single_head @ R) 64 32 = Inr (replicate 32 0xE5)"
  "rd_range (image_single_head @ R) 96 32 = Inr (replicate 32 0xE5)"
  "rd (image_single_head @ R) 128 = Inr 0x41"
  "rd_range (image_single_head @ R) 128 1024 = Inr (0x41 # replicate 1023 0)"
proof -
  let ?H = "take 32 (finalise_header state_single)"
  let ?EA = "entry_1k CHR ''A'' 1"
  let ?I = "replicate 32 (0xE5 :: byte)"
  let ?P = "0x41 # replicate 1023 (0 :: byte)"
  note l = state_single_header length_entry_1k
  have "rd_range (?H @ ?EA @ (?I @ ?I @ ?P @ R)) 32 32 = Inr ?EA"
    by (rule rd_range_at) (simp_all add: l)
  then show "rd_range (image_single_head @ R) 32 32 = Inr ?EA" by (simp add: image_single_head_def)
  have "rd_range ((?H @ ?EA) @ ?I @ (?I @ ?P @ R)) 64 32 = Inr ?I"
    by (rule rd_range_at) (simp_all add: l)
  then show "rd_range (image_single_head @ R) 64 32 = Inr ?I" by (simp add: image_single_head_def)
  have "rd_range ((?H @ ?EA @ ?I) @ ?I @ (?P @ R)) 96 32 = Inr ?I"
    by (rule rd_range_at) (simp_all add: l)
  then show "rd_range (image_single_head @ R) 96 32 = Inr ?I" by (simp add: image_single_head_def)
  have "rd ((?H @ ?EA @ ?I @ ?I) @ 0x41 # (replicate 1023 0 @ R)) 128 = Inr 0x41"
    by (rule rd_at) (simp_all add: l)
  then show "rd (image_single_head @ R) 128 = Inr 0x41" by (simp add: image_single_head_def)
  have "rd_range ((?H @ ?EA @ ?I @ ?I) @ ?P @ R) 128 1024 = Inr ?P"
    by (rule rd_range_at) (simp_all add: l)
  then show "rd_range (image_single_head @ R) 128 1024 = Inr ?P"
    by (simp add: image_single_head_def)
qed

lemma image_single_header:
  "(image_single_head @ R) ! 0 = 0xE5" "(image_single_head @ R) ! 22 = 4"
proof -
  have "unat (finalise_header state_single ! 22) = unat (4 :: byte)"
    by (simp add: state_single_header)
  then have "finalise_header state_single ! 22 = 4" by (simp only: word_unat_eq_iff)
  then show "(image_single_head @ R) ! 22 = 4"
    by (simp add: image_single_head_def nth_append state_single_header)
  show "(image_single_head @ R) ! 0 = 0xE5"
    by (simp add: image_single_head_def nth_append state_single_header)
qed

lemma dump_single:
  assumes "\<And>p. creatable h p"
  shows "dump_files h (image_single_head @ R) = Inr [(''A.T'', 0x41 # replicate 1023 0)]"
proof -
  note r = image_single_reads [of R]
  let ?img = "image_single_head @ R"
  let ?P = "0x41 # replicate 1023 (0 :: byte)"
  let ?st0 = "\<lparr> closed_files = [], open_file = None \<rparr>"
  let ?st1 = "\<lparr> closed_files = [], open_file = Some (''A.T'', ?P) \<rparr>"
  have "dump_loop h ?img 4 128 (Suc 0) ?st0 =
        dump_loop h ?img 4 128 (Suc (Suc 0)) ?st1"
    using dump_loop_step_file [of "Suc 0" 4 ?img "c_bytes ''A       ''" "c_bytes ''T  ''"
        0 0 8 1 128 ?P h ?st0] r(1,5) assms
    by (simp add: entry_1k_form length_c_bytes chars_of_c_bytes trim_def c_str_def out_close_def)
  also have "\<dots> = dump_loop h ?img 4 128 (Suc (Suc (Suc 0))) ?st1"
    using dump_loop_step_invalid [of "Suc (Suc 0)" 4 ?img "0xE5" h 128]
      rd_of_rd_range [OF r(2)]
    by simp
  also have "\<dots> = dump_loop h ?img 4 128 (Suc (Suc (Suc (Suc 0)))) ?st1"
    using dump_loop_step_invalid [of "Suc (Suc (Suc 0))" 4 ?img "0xE5" h 128]
      rd_of_rd_range [OF r(3)]
    by simp
  also have "\<dots> = dump_loop h ?img 4 128 (Suc (Suc (Suc (Suc (Suc 0))))) ?st1"
    using dump_loop_step_invalid [of "Suc (Suc (Suc (Suc 0)))" 4 ?img "0x41" h 128] r(4)
    by simp
  also have "\<dots> = Inr ?st1"
    by (rule dump_loop_stop) simp
  finally have loop: "dump_loop h ?img 4 128 (Suc 0) ?st0 = Inr ?st1" .
  have "22 < length ?img" by (simp add: length_image_single_head)
  then show ?thesis
    by (simp add: dump_files_unfold image_single_header file_area_offset_of_def sizeof_DirEntry_def
        loop out_close_def)
qed

lemma dump_image_single:
  assumes "\<And>p. creatable h p"
  shows "dump_files h image_single = Inr [(''A.T'', 0x41 # replicate 1023 0)]"
  unfolding image_single_def using assms by (rule dump_single)

subsection \<open>makerom followed by dumprom\<close>

lemma pack_then_unpack_image:
  assumes "makerom_main h args = Inr (swap_halves img)" and "length img = 0x8000"
  shows "pack_then_unpack h args =
           dump_files (h\<lparr> files := (files h)(args ! 1 \<mapsto> swap_halves img) \<rparr>) img"
  using assms
  by (simp add: pack_then_unpack_def dumprom_main_def length_swap_halves swap_halves_twice)

subsection \<open>The header of an image packed from at least one file\<close>

lemma checksum_bytes:
  fixes w :: "16 word"
  shows "unat (ucast (w AND 0xff) :: byte) + 256 * unat (ucast ((drop_bit 8 w) AND 0xff) :: byte)
         = unat w"
proof -
  have m: "(0xff :: 16 word) = mask 8" by (simp add: mask_eq_exp_minus_1)
  have b: "unat (ucast (x AND mask 8) :: byte) = unat x mod 256" for x :: "16 word"
  proof -
    have "unat (ucast (x AND mask 8) :: byte) = take_bit 8 (unat (take_bit 8 x))"
      by (simp only: unsigned_ucast_eq take_bit_eq_mask) simp
    also have "\<dots> = take_bit 8 (take_bit 8 (unat x))"
      by (simp only: unsigned_take_bit_eq)
    also have "\<dots> = unat x mod 256" by (simp add: take_bit_eq_mod)
    finally show ?thesis .
  qed
  have lt: "unat w < 65536" using unsigned_less [of w, where ?'a = nat] by simp
  have d: "unat (drop_bit 8 w) = unat w div 256"
    by (simp add: drop_bit_eq_div unat_div_distrib)
  have "unat w div 256 < 256" using lt by simp
  then have hi: "unat (ucast ((drop_bit 8 w) AND mask 8) :: byte) = unat w div 256"
    unfolding b d by simp
  have "unat (ucast (w AND mask 8) :: byte) + 256 * unat (ucast ((drop_bit 8 w) AND mask 8) :: byte)
        = unat w mod 256 + 256 * (unat w div 256)"
    by (simp only: b [of w] hi)
  then show ?thesis unfolding m by simp
qed


lemma pack_files_Inr_files:
  "pack_files h args s = Inr s' \<Longrightarrow> \<forall>a \<in> set args. files h a \<noteq> None"
proof (induction args arbitrary: s)
  case Nil
  then show ?case by simp
next
  case (Cons a args)
  from Cons.prems obtain s1 where
    one: "pack_file h a s = Inr s1" and rest: "pack_files h args s1 = Inr s'"
    by (auto split: sum.splits)
  from pack_file_Inr_valid(1) [OF one] Cons.IH [OF rest] show ?case by auto
qed

lemma finalise_header_checksum:
  assumes "length (directory s) = 1024"
  shows "unat (finalise_header s ! off_checksum) + 256 * unat (finalise_header s ! (off_checksum + 1))
           = length (file_area s) mod 2 ^ 16"
proof -
  let ?c = "of_nat (length (file_area s)) :: 16 word"
  have "finalise_header s ! off_checksum = ucast (?c AND 0xff)"
    and "finalise_header s ! (off_checksum + 1) = ucast ((drop_bit 8 ?c) AND 0xff)"
    using assms by (simp_all add: finalise_header_def Let_def off_dir_entries_def off_checksum_def)
  then have "unat (finalise_header s ! off_checksum)
               + 256 * unat (finalise_header s ! (off_checksum + 1)) = unat ?c"
    by (simp only: checksum_bytes)
  then show ?thesis by (simp add: unat_of_nat)
qed

lemma packed_header_with_inputs:
  assumes "makerom_main h args = Inr rom" and "3 \<le> length args"
  shows "\<exists>s. pack_files h (drop 2 args) (initial_state (args ! 1)) = Inr s
           \<and> swap_halves rom ! off_id0 = 0xE5 \<and> swap_halves rom ! off_id1 = 0x37
           \<and> swap_halves rom ! off_capacity = 0x20
           \<and> unat (swap_halves rom ! off_dir_entries) mod 4 = 0
           \<and> unat (swap_halves rom ! off_dir_entries) \<le> 0x20
           \<and> unat (swap_halves rom ! off_checksum)
                + 256 * unat (swap_halves rom ! (off_checksum + 1))
               = length (file_area s) mod 2 ^ 16"
proof -
  from makerom_main_Inr(1) [OF assms(1)] obtain s where
    p: "pack_files h (drop 2 args) (initial_state (args ! 1)) = Inr s" and b: "build_rom s = Inr rom"
    by blast
  note hd = pack_files_header [OF p]
  note br = build_rom_Inr [OF b hd(1,2,3)]
  let ?F = "finalise_header s"
  let ?c = "unat (currentDirectory s)"
  let ?n = "((?c + 3) div 4) * 4 * 32"
  have "length (drop 2 args) \<le> slots_needed h (drop 2 args)"
    using pack_files_Inr_files [OF p] by (rule slots_needed_ge_length)
  then have c1: "1 \<le> ?c" using hd(4) assms(2) by simp
  have de: "unat (?F ! off_dir_entries) = ((?c + 3) div 4) * 4"
    using hd(1,2) by (simp add: finalise_header_dir_entries unat_dir_entries)
  have n: "128 \<le> ?n" "?n \<le> 1024" using c1 hd(2) by simp_all
  have L: "swap_halves rom = take ?n ?F @ file_area s @ replicate (0x8000 - ?n - length (file_area s)) 0xff"
  proof -
    have "swap_halves rom = serialise_rom ?F (file_area s)"
      using br(1,2) by (simp add: swap_halves_twice)
    also have "\<dots> = take ?n ?F @ file_area s @ replicate (0x8000 - ?n - length (file_area s)) 0xff"
      using de n(2) hd(1) br(3) by (intro serialise_rom_eq) (simp_all add: length_finalise_header)
    finally show ?thesis .
  qed
  have nth: "swap_halves rom ! i = ?F ! i" if "i < 32" for i
    using that n hd(1) unfolding L by (simp add: nth_append length_finalise_header)
  have t: "directory s ! i = init_directory (args ! 1) ! i" if "i < 32" for i
  proof -
    have "directory s ! i = take 32 (directory s) ! i" using that by simp
    also have "\<dots> = take 32 (init_directory (args ! 1)) ! i" by (simp only: hd(6))
    finally show ?thesis using that by simp
  qed
  have "swap_halves rom ! off_id0 = 0xE5"
    using nth [of 0] t [of 0] by (simp add: off_id0_def finalise_header_magic init_directory_magic)
  moreover have "swap_halves rom ! off_id1 = 0x37"
  proof -
    have "swap_halves rom ! 1 = ?F ! 1" by (rule nth) simp
    also have "\<dots> = directory s ! 1" by (rule finalise_header_magic)
    also have "\<dots> = init_directory (args ! 1) ! 1" by (rule t) simp
    also have "\<dots> = 0x37" by (rule init_directory_magic)
    finally show ?thesis unfolding off_id1_def .
  qed
  moreover have "swap_halves rom ! off_capacity = 0x20"
    using nth [of 2] hd(3) finalise_header_capacity [of s] by (simp add: off_capacity_def)
  moreover have d: "swap_halves rom ! off_dir_entries = ?F ! off_dir_entries"
    using nth [of 22] by (simp add: off_dir_entries_def)
  moreover have "((?c + 3) div 4) * 4 \<le> 32" using hd(2) by (rule round4_le)
  moreover have "unat (swap_halves rom ! off_checksum)
                + 256 * unat (swap_halves rom ! (off_checksum + 1))
               = length (file_area s) mod 2 ^ 16"
    using nth [of 3] nth [of 4] finalise_header_checksum [OF hd(1)]
    by (simp add: off_checksum_def)
  ultimately show ?thesis using p de by auto
qed

subsection \<open>The last step of the directory walk\<close>

lemma dump_loop_last_slot:
  assumes "1 \<le> unat dir_entries"
  shows "dump_loop h rom dir_entries fileBase (unat dir_entries) st =
           dump_entry h rom fileBase (unat dir_entries * 32) st"
  using assms
  by (simp add: dump_loop_step dump_loop_stop split: sum.splits)


section \<open>The claims\<close>

text \<open>
  C1 (the code departs from it): four one-byte files \<open>A.T\<close>, \<open>B.T\<close>, \<open>C.T\<close>,
  \<open>D.T\<close> are packed without error, and unpacking the image gives back three files only.
  The fourth directory entry is never written to the image, because \<open>dir_entries\<close> is 4
  and only \<open>4 * 32\<close> directory bytes are copied; \<open>D.T\<close> is lost.
\<close>

theorem fourth_file_lost:
  "pack_then_unpack host_ABCD [''makerom'', ''o.rom'', ''A.T'', ''B.T'', ''C.T'', ''D.T''] =
     Inr [(''A.T'', 0x41 # replicate 1023 0), (''B.T'', 0x42 # replicate 1023 0),
          (''C.T'', 0x43 # replicate 1023 0)]"
proof -
  let ?args = "[''makerom'', ''o.rom'', ''A.T'', ''B.T'', ''C.T'', ''D.T'']"
  let ?h = "host_ABCD\<lparr> files := (files host_ABCD)(?args ! 1 \<mapsto> swap_halves image_ABCD) \<rparr>"
  have "pack_then_unpack host_ABCD ?args = dump_files ?h image_ABCD"
    using makerom_ABCD length_image_ABCD by (rule pack_then_unpack_image)
  also have "\<dots> = Inr [(''A.T'', 0x41 # replicate 1023 0), (''B.T'', 0x42 # replicate 1023 0),
          (''C.T'', 0x43 # replicate 1023 0)]"
    by (rule dump_ABCD) (simp add: host_ABCD_def host_with_def)
  finally show ?thesis .
qed

text \<open>
  C2 (the code departs from it): with the same four files makerom ends in
  \<open>state_ABCD\<close>, whose slot counter is 4, so the highest used slot is 4 and the claim
  asks for \<open>dir_entries = 8\<close>. The header of the image written, read after undoing the
  half swap, has \<open>dir_entries = 4\<close>: line 251 rounds the counter itself, not the counter
  plus one.
\<close>

theorem dir_entries_not_past_last_slot:
  "pack_files host_ABCD [''A.T'', ''B.T'', ''C.T'', ''D.T''] (initial_state ''o.rom'')
     = Inr state_ABCD
   \<and> currentDirectory state_ABCD = 4
   \<and> makerom_main host_ABCD [''makerom'', ''o.rom'', ''A.T'', ''B.T'', ''C.T'', ''D.T'']
     = Inr (swap_halves image_ABCD)
   \<and> swap_halves (swap_halves image_ABCD) ! off_dir_entries = 4"
proof -
  have "swap_halves (swap_halves image_ABCD) ! off_dir_entries = 4"
    using length_image_ABCD by (simp add: swap_halves_twice image_ABCD_header off_dir_entries_def)
  moreover have "pack_files host_ABCD [''A.T'', ''B.T'', ''C.T'', ''D.T''] (initial_state ''o.rom'')
     = Inr state_ABCD"
    using pack_ABCD by (simp add: state_ABCD_def)
  moreover have "currentDirectory state_ABCD = 4" by (simp add: state_ABCD_def)
  ultimately show ?thesis using makerom_ABCD by (intro conjI)
qed

text \<open>
  C3 (the code departs from it): a 0x8000-byte file whose bytes, once the halves are
  exchanged, start with 0x00 0x37 and have \<open>dir_entries = 0\<close>. The first byte is not the
  magic 0xE5, yet \<open>dump_files\<close> does not stop with "Not a valid rom file.": the test
  joins the two comparisons with \<open>&&\<close>, so the matching second byte lets the image through,
  and dumprom ends normally with no file written.
\<close>

theorem foreign_image_accepted:
  "length (replicate 0x4000 0 @ [0x00, 0x37] @ replicate 0x3FFE (0 :: byte)) = 0x8000
   \<and> swap_halves (replicate 0x4000 0 @ [0x00, 0x37] @ replicate 0x3FFE 0) ! off_id0 \<noteq> 0xE5
   \<and> dumprom_main
        (host_with [(''x.rom'', replicate 0x4000 0 @ [0x00, 0x37] @ replicate 0x3FFE 0)])
        [''dumprom'', ''x.rom''] = Inr []"
proof -
  let ?img = "replicate 0x4000 0 @ [0x00, 0x37] @ replicate 0x3FFE (0 :: byte)"
  let ?h = "host_with [(''x.rom'', ?img)]"
  have len: "length ?img = 0x8000" by simp
  have sw: "swap_halves ?img = [0x00, 0x37] @ replicate 0x3FFE 0 @ replicate 0x4000 0"
    by (simp add: swap_halves_eq)
  have b0: "swap_halves ?img ! 0 = 0x00"
    unfolding sw by (simp add: nth_append)
  have l: "22 < length (swap_halves ?img)" by (simp add: length_swap_halves)
  have m: "\<not> (swap_halves ?img ! 0 \<noteq> 0xE5 \<and> swap_halves ?img ! 1 \<noteq> 0x37)"
    unfolding sw by (simp add: nth_append)
  have z: "swap_halves ?img ! 22 = 0"
    unfolding sw by (simp add: nth_append)
  have "dump_files ?h (swap_halves ?img) = Inr []"
    using l m z by (rule dump_files_empty_directory)
  then have "dumprom_main ?h [''dumprom'', ''x.rom''] = Inr []"
    by (simp add: dumprom_main_def host_with_def)
  then show ?thesis using len b0 by (simp add: off_id0_def)
qed

text \<open>
  C4 (the code departs from it): the walk runs while \<open>dirNo <= dir_entries\<close>, so its last
  step reads the 32 bytes at offset \<open>dir_entries * 32\<close>, where the file area starts. One
  input file \<open>A.T\<close> of 32 bytes that look like a continuation entry naming block 1 is
  packed with \<open>dir_entries = 4\<close>; on unpacking, the 32 bytes at offset 128 are taken as
  a directory entry and block 1 is written a second time, so \<open>A.T\<close> comes out 2048 bytes
  long.
\<close>

theorem file_area_walked_as_directory:
  "dir_entry_offset 4 4 = file_area_offset_of 4
   \<and> pack_then_unpack host_forged [''makerom'', ''o.rom'', ''A.T''] =
       Inr [(''A.T'', (forged_entry @ replicate 992 0) @ (forged_entry @ replicate 992 0))]"
proof -
  let ?args = "[''makerom'', ''o.rom'', ''A.T'']"
  let ?h = "host_forged\<lparr> files := (files host_forged)(?args ! 1 \<mapsto> swap_halves image_forged) \<rparr>"
  have "pack_then_unpack host_forged ?args = dump_files ?h image_forged"
    using makerom_forged length_image_forged by (rule pack_then_unpack_image)
  also have "\<dots> = Inr [(''A.T'', (forged_entry @ replicate 992 0) @ (forged_entry @ replicate 992 0))]"
    by (rule dump_forged) (simp add: host_forged_def host_with_def)
  finally show ?thesis by (simp add: dir_entry_offset_def file_area_offset_of_def)
qed



text \<open>
  C6: on a 0x8000-byte buffer the half swap puts the second 16 KiB first and the first
  16 KiB second (byte \<open>i\<close> and byte \<open>i + 0x4000\<close> change places), and doing it twice gives
  the buffer back. An image makerom writes is the serialised image with its halves
  exchanged once, and is 0x8000 bytes long. dumprom hands \<open>dump_files\<close> what it read with
  the halves exchanged when the length is 0x8000, and as it is for every other length. So
  for an image written by makerom \<open>dump_files\<close> receives the serialised image of the packer.
\<close>

theorem half_swap_involution:
  "(length buf = 0x8000 \<longrightarrow>
        swap_halves buf = drop 0x4000 buf @ take 0x4000 buf
      \<and> length (swap_halves buf) = 0x8000
      \<and> (\<forall>i < 0x4000. swap_halves buf ! i = buf ! (i + 0x4000)
                       \<and> swap_halves buf ! (i + 0x4000) = buf ! i)
      \<and> swap_halves (swap_halves buf) = buf)
   \<and> (makerom_main h args = Inr rom \<longrightarrow>
        (\<exists>s. pack_files h (drop 2 args) (initial_state (args ! 1)) = Inr s
           \<and> length (serialise_rom (finalise_header s) (file_area s)) = 0x8000
           \<and> rom = swap_halves (serialise_rom (finalise_header s) (file_area s))
           \<and> rom = drop 0x4000 (serialise_rom (finalise_header s) (file_area s))
                     @ take 0x4000 (serialise_rom (finalise_header s) (file_area s))
           \<and> length rom = 0x8000))
   \<and> (files h' path = Some buffer \<and> length buffer = 0x8000 \<longrightarrow>
        dumprom_main h' [prog, path] = dump_files h' (drop 0x4000 buffer @ take 0x4000 buffer))
   \<and> (files h' path = Some buffer \<and> length buffer \<noteq> 0x8000 \<longrightarrow>
        dumprom_main h' [prog, path] = dump_files h' buffer)
   \<and> (makerom_main h args = Inr rom \<and> files h' path = Some rom \<longrightarrow>
        (\<exists>s. pack_files h (drop 2 args) (initial_state (args ! 1)) = Inr s
           \<and> dumprom_main h' [prog, path] =
               dump_files h' (serialise_rom (finalise_header s) (file_area s))))"
proof (intro conjI impI)
  assume l: "length buf = 0x8000"
  then show "swap_halves buf = drop 0x4000 buf @ take 0x4000 buf" by (rule swap_halves_eq)
  from l show "length (swap_halves buf) = 0x8000" by (rule length_swap_halves)
  from l show "\<forall>i < 0x4000. swap_halves buf ! i = buf ! (i + 0x4000)
                       \<and> swap_halves buf ! (i + 0x4000) = buf ! i"
    by (simp add: swap_halves_nth)
  from l show "swap_halves (swap_halves buf) = buf" by (rule swap_halves_twice)
next
  assume "makerom_main h args = Inr rom"
  from makerom_main_image [OF this] obtain s where
    p: "pack_files h (drop 2 args) (initial_state (args ! 1)) = Inr s"
    and r: "rom = swap_halves (serialise_rom (finalise_header s) (file_area s))"
    and l: "length (serialise_rom (finalise_header s) (file_area s)) = 0x8000"
    by blast
  from r l have r2: "rom = drop 0x4000 (serialise_rom (finalise_header s) (file_area s))
                     @ take 0x4000 (serialise_rom (finalise_header s) (file_area s))"
    by (simp only: swap_halves_eq)
  from r l have "length rom = 0x8000" by (simp only: length_swap_halves)
  with p l r r2
  show "\<exists>s. pack_files h (drop 2 args) (initial_state (args ! 1)) = Inr s
           \<and> length (serialise_rom (finalise_header s) (file_area s)) = 0x8000
           \<and> rom = swap_halves (serialise_rom (finalise_header s) (file_area s))
           \<and> rom = drop 0x4000 (serialise_rom (finalise_header s) (file_area s))
                     @ take 0x4000 (serialise_rom (finalise_header s) (file_area s))
           \<and> length rom = 0x8000"
    by blast
next
  assume "files h' path = Some buffer \<and> length buffer = 0x8000"
  then show "dumprom_main h' [prog, path] =
               dump_files h' (drop 0x4000 buffer @ take 0x4000 buffer)"
    by (simp add: dumprom_main_def swap_halves_eq)
next
  assume "files h' path = Some buffer \<and> length buffer \<noteq> 0x8000"
  then show "dumprom_main h' [prog, path] = dump_files h' buffer"
    by (simp add: dumprom_main_def)
next
  assume a: "makerom_main h args = Inr rom \<and> files h' path = Some rom"
  from makerom_main_image [of h args rom] a obtain s where
    p: "pack_files h (drop 2 args) (initial_state (args ! 1)) = Inr s"
    and r: "rom = swap_halves (serialise_rom (finalise_header s) (file_area s))"
    and l: "length (serialise_rom (finalise_header s) (file_area s)) = 0x8000"
    by blast
  have "dumprom_main h' [prog, path] = dump_files h' (swap_halves rom)"
    using a r l by (simp add: dumprom_main_def length_swap_halves)
  also have "swap_halves rom = serialise_rom (finalise_header s) (file_area s)"
    using r l by (simp add: swap_halves_twice)
  finally show "\<exists>s. pack_files h (drop 2 args) (initial_state (args ! 1)) = Inr s
           \<and> dumprom_main h' [prog, path] =
               dump_files h' (serialise_rom (finalise_header s) (file_area s))"
    using p by blast
qed

theorem half_swap_involution_witness:
  "length image_single = 0x8000
   \<and> swap_halves image_single = drop 0x4000 image_single @ take 0x4000 image_single
   \<and> swap_halves image_single ! 0 = image_single ! 0x4000
   \<and> image_single ! 0 = 0xE5 \<and> image_single ! 0x4000 = 0xFF
   \<and> swap_halves image_single \<noteq> image_single
   \<and> swap_halves (swap_halves image_single) = image_single
   \<and> makerom_main host_single [''makerom'', ''o.rom'', ''A.T''] = Inr (swap_halves image_single)
   \<and> dumprom_main (host_with [(''o.rom'', swap_halves image_single)]) [''dumprom'', ''o.rom'']
       = Inr [(''A.T'', 0x41 # replicate 1023 0)]
   \<and> length image_single_head \<noteq> 0x8000
   \<and> dumprom_main (host_with [(''h.rom'', image_single_head)]) [''dumprom'', ''h.rom'']
       = Inr [(''A.T'', 0x41 # replicate 1023 0)]"
proof -
  let ?args = "[''makerom'', ''o.rom'', ''A.T'']"
  let ?rom = "swap_halves image_single"
  let ?h' = "host_with [(''o.rom'', ?rom)]"
  let ?h2 = "host_with [(''h.rom'', image_single_head)]"
  have len: "length image_single = 0x8000" by (rule length_image_single)
  have m: "makerom_main host_single ?args = Inr ?rom" by (rule makerom_single)
  have f: "files ?h' ''o.rom'' = Some ?rom" by (simp add: host_with_def)
  have f2: "files ?h2 ''h.rom'' = Some image_single_head" by (simp add: host_with_def)
  have len2: "length image_single_head \<noteq> 0x8000" by (simp add: length_image_single_head)
  have cr: "\<And>p. creatable ?h' p" "\<And>p. creatable ?h2 p" by (simp_all add: host_with_def)
  note t = half_swap_involution [of image_single host_single ?args ?rom ?h' "''o.rom''" ?rom
      "''dumprom''"]
  note t2 = half_swap_involution [of image_single host_single ?args ?rom ?h2 "''h.rom''"
      image_single_head "''dumprom''"]
  from t len have c1: "swap_halves image_single = drop 0x4000 image_single @ take 0x4000 image_single"
    by blast
  from t len have "\<forall>i < 0x4000. swap_halves image_single ! i = image_single ! (i + 0x4000)
                       \<and> swap_halves image_single ! (i + 0x4000) = image_single ! i"
    by blast
  then have "swap_halves image_single ! 0 = image_single ! (0 + 0x4000)" by simp
  then have c2: "swap_halves image_single ! 0 = image_single ! 0x4000" by simp
  have b0: "image_single ! 0 = 0xE5"
    unfolding image_single_def by (rule image_single_header)
  have b1: "image_single ! 0x4000 = 0xFF"
    by (simp add: image_single_def nth_append length_image_single_head)
  have ne: "swap_halves image_single \<noteq> image_single"
  proof
    assume "swap_halves image_single = image_single"
    with c2 b0 b1 show False by simp
  qed
  from t len have c3: "swap_halves (swap_halves image_single) = image_single" by blast
  from t m f obtain s where
    p: "pack_files host_single (drop 2 ?args) (initial_state (?args ! 1)) = Inr s"
    and d: "dumprom_main ?h' [''dumprom'', ''o.rom''] =
              dump_files ?h' (serialise_rom (finalise_header s) (file_area s))"
    by blast
  from p pack_single have "s = state_single" by simp
  with d have "dumprom_main ?h' [''dumprom'', ''o.rom''] = dump_files ?h' image_single"
    by (simp only: serialise_single)
  also have "\<dots> = Inr [(''A.T'', 0x41 # replicate 1023 0)]"
    using cr(1) by (rule dump_image_single)
  finally have c4: "dumprom_main ?h' [''dumprom'', ''o.rom''] = Inr [(''A.T'', 0x41 # replicate 1023 0)]" .
  from t2 f2 len2 have "dumprom_main ?h2 [''dumprom'', ''h.rom''] = dump_files ?h2 image_single_head"
    by blast
  also have "\<dots> = Inr [(''A.T'', 0x41 # replicate 1023 0)]"
    using dump_single [of ?h2 "[]"] cr(2) by simp
  finally have c5: "dumprom_main ?h2 [''dumprom'', ''h.rom''] = Inr [(''A.T'', 0x41 # replicate 1023 0)]" .
  from len c1 c2 b0 b1 ne c3 m c4 len2 c5 show ?thesis by (intro conjI)
qed

text \<open>
  C7: with an output path that does not exist yet and input files that all open and have
  8.3 names, makerom stops with "Out of directory space." exactly when the inputs need
  more than 31 directory entries, that is when the slot counter would pass 0x1F. In
  particular 32 or more inputs always fail so, and inputs needing at most 31 entries never
  do; the counter then ends at the number of entries needed.
\<close>

theorem out_of_directory_space_iff:
  assumes "2 \<le> length args" and "files h (args ! 1) = None"
    and "\<forall>a \<in> set (drop 2 args). files h a \<noteq> None \<and> \<not> isl (split_file_name a)"
  shows "(makerom_main h args = Inl OutOfDirectorySpace \<longleftrightarrow> 31 < slots_needed h (drop 2 args))
       \<and> (32 \<le> length (drop 2 args) \<longrightarrow> makerom_main h args = Inl OutOfDirectorySpace)
       \<and> (slots_needed h (drop 2 args) \<le> 31 \<longrightarrow>
            (\<exists>s. pack_files h (drop 2 args) (initial_state (args ! 1)) = Inr s
               \<and> unat (currentDirectory s) = slots_needed h (drop 2 args)))"
proof -
  let ?s0 = "initial_state (args ! 1)"
  let ?n = "slots_needed h (drop 2 args)"
  have over: "makerom_main h args = Inl OutOfDirectorySpace" if "31 < ?n"
  proof -
    have "pack_files h (drop 2 args) ?s0 = Inl OutOfDirectorySpace"
      using assms(3)
    proof (rule pack_files_overflow)
      show "31 < unat (currentDirectory ?s0) + ?n" using that by (simp add: initial_state_simps)
    qed (simp_all add: initial_state_simps)
    then show ?thesis using assms(1,2) by (simp add: makerom_main_def)
  qed
  have fits: "\<exists>s. pack_files h (drop 2 args) ?s0 = Inr s \<and> unat (currentDirectory s) = ?n"
    and not_over: "makerom_main h args \<noteq> Inl OutOfDirectorySpace" if "?n \<le> 31"
  proof -
    have "\<exists>s. pack_files h (drop 2 args) ?s0 = Inr s"
      using assms(3)
    proof (rule pack_files_fits)
      show "unat (currentDirectory ?s0) + ?n \<le> 31" using that by (simp add: initial_state_simps)
    qed (simp add: initial_state_simps)
    then obtain s where p: "pack_files h (drop 2 args) ?s0 = Inr s" by blast
    from pack_files_header(4) [OF p] p
    show "\<exists>s. pack_files h (drop 2 args) ?s0 = Inr s \<and> unat (currentDirectory s) = ?n" by blast
    show "makerom_main h args \<noteq> Inl OutOfDirectorySpace"
      using assms(1,2) p build_rom_error [of s]
      by (auto simp: makerom_main_def Let_def split: sum.splits)
  qed
  have many: "31 < ?n" if "32 \<le> length (drop 2 args)"
  proof -
    have "length (drop 2 args) \<le> ?n"
      using assms(3) by (intro slots_needed_ge_length) simp
    then show ?thesis using that by simp
  qed
  have iff: "makerom_main h args = Inl OutOfDirectorySpace \<longleftrightarrow> 31 < ?n"
  proof
    assume e: "makerom_main h args = Inl OutOfDirectorySpace"
    show "31 < ?n"
    proof (rule ccontr)
      assume "\<not> 31 < ?n"
      then have "?n \<le> 31" by simp
      from not_over [OF this] e show False by simp
    qed
  next
    assume "31 < ?n"
    then show "makerom_main h args = Inl OutOfDirectorySpace" by (rule over)
  qed
  have big: "32 \<le> length (drop 2 args) \<longrightarrow> makerom_main h args = Inl OutOfDirectorySpace"
    using many over by blast
  have small: "?n \<le> 31 \<longrightarrow>
            (\<exists>s. pack_files h (drop 2 args) ?s0 = Inr s \<and> unat (currentDirectory s) = ?n)"
    using fits by blast
  from iff big small show ?thesis by (intro conjI)
qed

theorem out_of_directory_space_witness:
  "makerom_main (host_with [(''A.T'', [0x41])]) (''makerom'' # ''out.rom'' # replicate 32 ''A.T'')
     = Inl OutOfDirectorySpace
   \<and> makerom_main (host_with [(''A.T'', [0x41])]) (''makerom'' # ''out.rom'' # replicate 31 ''A.T'')
     \<noteq> Inl OutOfDirectorySpace"
proof -
  let ?h = "host_with [(''A.T'', [0x41])]"
  have n: "slots_needed ?h (replicate k ''A.T'') = k" for k
    by (simp add: slots_needed_def extents_needed_def chunks_of_def sum_list_replicate host_with_def)
  have h1: "2 \<le> length (''makerom'' # ''out.rom'' # replicate k ''A.T'')" for k by simp
  have h2: "files ?h ((''makerom'' # ''out.rom'' # replicate k ''A.T'') ! 1) = None" for k
    by (simp add: host_with_def)
  have d: "drop 2 (''makerom'' # ''out.rom'' # replicate k ''A.T'') = replicate k ''A.T''" for k
    by simp
  have h3: "\<forall>a \<in> set (drop 2 (''makerom'' # ''out.rom'' # replicate k ''A.T'')).
              files ?h a \<noteq> None \<and> \<not> isl (split_file_name a)" for k
    unfolding d by (auto simp: split_A_T host_with_def)
  note t = out_of_directory_space_iff [OF h1 h2 h3, unfolded d n]
  have "makerom_main ?h (''makerom'' # ''out.rom'' # replicate 32 ''A.T'') = Inl OutOfDirectorySpace"
    using t [of 32] by simp
  moreover
  have "makerom_main ?h (''makerom'' # ''out.rom'' # replicate 31 ''A.T'') \<noteq> Inl OutOfDirectorySpace"
    using t [of 31] by simp
  ultimately show ?thesis by blast
qed

text \<open>
  C8 with its conclusion as the code has it: an image whose header passes the magic check
  (\<open>id[0] = 0xE5\<close> and \<open>id[1] = 0x37\<close>) and whose \<open>dir_entries\<close> is above 0x20 or
  not a multiple of 4 stops dumprom at a failed \<open>assert\<close> in \<open>file_area_offset\<close> (with
  assertions compiled in, as the documented build command does). No "corrupt directory"
  error exists in the source.
\<close>

theorem corrupt_directory_assertion:
  assumes "off_dir_entries < length rom"
    and "rom ! off_id0 = MAGIC" and "rom ! off_id1 = MAGIC_M"
    and "unat MAX_DIR_ENTRIES < unat (rom ! off_dir_entries)
         \<or> unat (rom ! off_dir_entries) mod 4 \<noteq> 0"
  shows "dump_files h rom = Inl AssertionFailed"
proof (rule dump_files_assertion)
  show "22 < length rom" using assms(1) by (simp add: off_dir_entries_def)
  show "\<not> (rom ! 0 \<noteq> 0xE5 \<and> rom ! 1 \<noteq> 0x37)"
    using assms(2) by (simp add: off_id0_def MAGIC_def)
  show "0x20 < unat (rom ! 22) \<or> unat (rom ! 22) mod 4 \<noteq> 0"
    using assms(4) by (simp add: off_dir_entries_def MAX_DIR_ENTRIES_def)
qed

theorem corrupt_directory_assertion_witness:
  "off_dir_entries < length ([0xE5, 0x37] @ replicate 20 0 @ [5 :: byte] @ replicate 9 0)
   \<and> ([0xE5, 0x37] @ replicate 20 0 @ [5 :: byte] @ replicate 9 0) ! off_id0 = MAGIC
   \<and> ([0xE5, 0x37] @ replicate 20 0 @ [5 :: byte] @ replicate 9 0) ! off_id1 = MAGIC_M
   \<and> unat (([0xE5, 0x37] @ replicate 20 0 @ [5 :: byte] @ replicate 9 0) ! off_dir_entries) mod 4 \<noteq> 0
   \<and> dump_files (host_with []) ([0xE5, 0x37] @ replicate 20 0 @ [5] @ replicate 9 0)
       = Inl AssertionFailed"
proof -
  let ?rom = "[0xE5, 0x37] @ replicate 20 0 @ [5 :: byte] @ replicate 9 0"
  have l: "off_dir_entries < length ?rom" by (simp add: off_dir_entries_def)
  have m0: "?rom ! off_id0 = MAGIC" by (simp add: off_id0_def MAGIC_def)
  have m1: "?rom ! off_id1 = MAGIC_M" by (simp add: off_id1_def MAGIC_M_def)
  have b: "?rom ! off_dir_entries = 5" by (simp add: off_dir_entries_def nth_append)
  have d4: "unat (?rom ! off_dir_entries) mod 4 \<noteq> 0" unfolding b by simp
  then have d: "unat MAX_DIR_ENTRIES < unat (?rom ! off_dir_entries)
              \<or> unat (?rom ! off_dir_entries) mod 4 \<noteq> 0" by (rule disjI2)
  from corrupt_directory_assertion [OF l m0 m1 d] l m0 m1 d4 show ?thesis by (intro conjI)
qed

text \<open>
  The same on a full-size file: 0x8000 bytes whose second half starts with the magic
  0xE5 0x37 and has \<open>dir_entries = 5\<close>. dumprom stops at the assertion.
\<close>

theorem corrupt_directory_counterexample:
  "dumprom_main
     (host_with [(''x.rom'', replicate 0x4000 0 @ [0xE5, 0x37] @ replicate 20 0 @ [5]
                              @ replicate 0x3FE9 0)])
     [''dumprom'', ''x.rom''] = Inl AssertionFailed"
proof -
  let ?img = "replicate 0x4000 0 @ [0xE5, 0x37] @ replicate 20 0 @ [5] @ replicate 0x3FE9 (0 :: byte)"
  let ?h = "host_with [(''x.rom'', ?img)]"
  have len: "length ?img = 0x8000" by simp
  have sw: "swap_halves ?img = [0xE5, 0x37] @ replicate 20 0 @ [5] @ replicate 0x3FE9 0 @ replicate 0x4000 0"
    by (simp add: swap_halves_eq)
  have l: "22 < length (swap_halves ?img)" by (simp add: length_swap_halves)
  have m: "\<not> (swap_halves ?img ! 0 \<noteq> 0xE5 \<and> swap_halves ?img ! 1 \<noteq> 0x37)"
    unfolding sw by (simp add: nth_append)
  have d: "0x20 < unat (swap_halves ?img ! 22) \<or> unat (swap_halves ?img ! 22) mod 4 \<noteq> 0"
    unfolding sw by (simp add: nth_append)
  have "dump_files ?h (swap_halves ?img) = Inl AssertionFailed"
    using l m d by (rule dump_files_assertion)
  then show ?thesis by (simp add: dumprom_main_def host_with_def)
qed

text \<open>
  C9 (the code departs from it): makerom called with no input file ends normally, and the
  image it writes has no header: after undoing the half swap, the bytes at the offsets of
  \<open>id[0]\<close>, \<open>id[1]\<close>, \<open>capacity\<close> and \<open>dir_entries\<close> are all 0xFF.
\<close>

theorem no_header_without_inputs:
  "makerom_main (host_with []) [''makerom'', ''out.rom''] = Inr (replicate 0x8000 0xff)
   \<and> swap_halves (replicate 0x8000 0xff) ! off_id0 = 0xFF
   \<and> swap_halves (replicate 0x8000 0xff) ! off_id1 = 0xFF
   \<and> swap_halves (replicate 0x8000 0xff) ! off_capacity = 0xFF
   \<and> swap_halves (replicate 0x8000 0xff) ! off_dir_entries = 0xFF"
proof -
  have "makerom_main (host_with []) [''makerom'', ''out.rom''] = Inr (replicate 0x8000 0xff)"
    by (rule makerom_main_no_inputs) (simp_all add: host_with_def)
  then show ?thesis
    by (simp add: swap_halves_replicate off_id0_def off_id1_def off_capacity_def off_dir_entries_def)
qed

text \<open>
  C10: makerom called with an output path and no input file does not stop with the usage
  error. No file is placed, the header's \<open>dir_entries\<close> becomes 0, so no byte of the
  directory, the header included, is copied, and the image written is 0x8000 bytes of 0xFF.
\<close>

theorem no_input_files_image:
  assumes "files h out = None" and "creatable h out" and "write_good h out"
  shows "makerom_main h [prog, out] = Inr (replicate 0x8000 0xff)
       \<and> pack_files h (drop 2 [prog, out]) (initial_state out) = Inr (initial_state out)
       \<and> finalise_header (initial_state out) ! off_dir_entries = 0
       \<and> take (unat (finalise_header (initial_state out) ! off_dir_entries) * sizeof_DirEntry)
              (finalise_header (initial_state out)) = []"
proof -
  have "finalise_header (initial_state out) ! off_dir_entries = 0"
    by (simp add: finalise_header_dir_entries initial_state_simps dir_entries_for_def)
  then show ?thesis using makerom_main_no_inputs [OF assms] by simp
qed

theorem no_input_files_image_witness:
  "files (host_with []) ''out.rom'' = None
   \<and> makerom_main (host_with [])
        [''makerom'', ''out.rom''] = Inr (replicate 0x8000 0xff)"
  using no_input_files_image [of "host_with []" "''out.rom''" "''makerom''"]
  by (simp add: host_with_def)

end
